theory Spec2Isabelle
  imports Complex_Main "HOL-Library.AList" "HOL-Library.Sublist"
begin

section \<open>JavaScript values\<close>

text \<open>
  A JavaScript number is an IEEE double. Every finite double is a rational number and the
  comparisons of the source (\<open><\<close>, \<open>===\<close>) agree with the comparisons of the rationals, so a
  number is modelled as a rational or one of the three special values; a statement proved for
  every \<open>jsnum\<close> holds for every double. Negative zero is \<open>Num 0\<close> (\<open>-0 === 0\<close> in the source
  language).
\<close>

datatype jsnum = NaN | NegInf | Num rat | PosInf

text \<open>The relational operator \<open>a < b\<close> on two numbers: false as soon as one side is NaN.\<close>

fun jslt :: "jsnum \<Rightarrow> jsnum \<Rightarrow> bool" where
  "jslt NaN b = False"
| "jslt a NaN = False"
| "jslt PosInf b = False"
| "jslt a NegInf = False"
| "jslt NegInf b = True"
| "jslt a PosInf = True"
| "jslt (Num a) (Num b) = (a < b)"

text \<open>
  The values the modelled code handles. An object is the list of its own properties, each
  name once. A property that an object does not have reads as \<open>JUndefined\<close>, so an absent
  field of a returned object is modelled by \<open>JUndefined\<close>.
\<close>

datatype jsval =
    JUndefined
  | JNull
  | JBool bool
  | JNumber jsnum
  | JString string
  | JArray "jsval list"
  | JObject "(string \<times> jsval) list"

text \<open>\<open>typeof v === 'number'\<close>, \<open>typeof v === 'boolean'\<close>, \<open>typeof v === 'string'\<close>.\<close>

fun is_number :: "jsval \<Rightarrow> bool" where
  "is_number (JNumber n) = True"
| "is_number v = False"

fun is_boolean :: "jsval \<Rightarrow> bool" where
  "is_boolean (JBool b) = True"
| "is_boolean v = False"

fun is_string :: "jsval \<Rightarrow> bool" where
  "is_string (JString s) = True"
| "is_string v = False"

text \<open>Truthiness, as \<open>if (v)\<close>, \<open>!v\<close> and \<open>v && w\<close> test it.\<close>

fun truthy :: "jsval \<Rightarrow> bool" where
  "truthy JUndefined = False"
| "truthy JNull = False"
| "truthy (JBool b) = b"
| "truthy (JNumber n) = (n \<noteq> NaN \<and> n \<noteq> Num 0)"
| "truthy (JString s) = (s \<noteq> [])"
| "truthy (JArray xs) = True"
| "truthy (JObject kvs) = True"

text \<open>\<open>a && b\<close>: the left operand when it is falsy, the right operand otherwise.\<close>

definition js_and :: "jsval \<Rightarrow> jsval \<Rightarrow> jsval" where
  "js_and a b = (if truthy a then b else a)"

text \<open>
  Reading one of the report's fields (\<open>data.total_percent_covered\<close>, \<open>data.total_num_lines\<close>,
  \<open>data.crash_fallback\<close>) from a value that \<open>JSON.parse\<close> returned. On \<open>null\<close> the read throws a
  TypeError (\<open>None\<close>); on an object it gives the own property or \<open>undefined\<close>; on a number,
  string, boolean or array it gives \<open>undefined\<close>, since none of their prototypes has a property
  of these names.
\<close>

fun get_field :: "jsval \<Rightarrow> string \<Rightarrow> jsval option" where
  "get_field JUndefined k = None"
| "get_field JNull k = None"
| "get_field (JObject kvs) k = Some (case map_of kvs k of None \<Rightarrow> JUndefined | Some v \<Rightarrow> v)"
| "get_field v k = Some JUndefined"

section \<open>Characters and strings\<close>

text \<open>
  A string is the list of its code units, here those below 256. The classes are the ones of
  the source language on that range: \<open>\s\<close> (also what \<open>trim\<close> strips) is tab, line feed,
  vertical tab, form feed, carriage return, space and the no-break space; a line terminator
  is a line feed or a carriage return; \<open>\w\<close> is \<open>[A-Za-z0-9_]\<close>; \<open>\d\<close> is \<open>[0-9]\<close>; \<open>.\<close> is
  anything but a line terminator.
\<close>

definition is_space :: "char \<Rightarrow> bool" where
  "is_space c = (c \<in> set [CHR 0x09, CHR 0x0A, CHR 0x0B, CHR 0x0C, CHR 0x0D, CHR '' '', CHR 0xA0])"

definition is_line_terminator :: "char \<Rightarrow> bool" where
  "is_line_terminator c = (c = CHR 0x0A \<or> c = CHR 0x0D)"

definition is_digit :: "char \<Rightarrow> bool" where
  "is_digit c = (c \<in> set ''0123456789'')"

definition is_word :: "char \<Rightarrow> bool" where
  "is_word c = (c \<in> set ''abcdefghijklmnopqrstuvwxyz'' \<or> c \<in> set ''ABCDEFGHIJKLMNOPQRSTUVWXYZ''
                 \<or> is_digit c \<or> c = CHR ''_'')"

definition is_dot :: "char \<Rightarrow> bool" where
  "is_dot c = (\<not> is_line_terminator c)"

text \<open>\<open>s.split(d)\<close> for a one-character separator: never empty, \<open>''''.split(d)\<close> is \<open>['''']\<close>.\<close>

fun split_on :: "char \<Rightarrow> string \<Rightarrow> string list" where
  "split_on d [] = [[]]"
| "split_on d (c # cs) =
     (if c = d then [] # split_on d cs
      else (c # hd (split_on d cs)) # tl (split_on d cs))"

text \<open>\<open>s.includes(t)\<close>: \<open>t\<close> occurs in \<open>s\<close> as a contiguous piece.\<close>

definition str_includes :: "string \<Rightarrow> string \<Rightarrow> bool" where
  "str_includes s t = sublist t s"

text \<open>\<open>s.replace(/-bot$/, '''')\<close>: without the \<open>m\<close> flag \<open>$\<close> is the end of the string.\<close>

definition strip_bot :: "string \<Rightarrow> string" where
  "strip_bot s = (if suffix ''-bot'' s then take (length s - 4) s else s)"

section \<open>Regular expressions\<close>

text \<open>
  The patterns of the plan classifier use a small part of the pattern language: literal
  text, one character of a class, a greedy or lazy repetition of a class (\<open>c+\<close>, \<open>c*\<close>,
  \<open>c+?\<close>), a capture group around a greedy repetition, negative lookahead, and the anchors
  \<open>^\<close> and \<open>$\<close> under the \<open>m\<close> flag. A pattern is the list of its items in sequence.
\<close>

datatype cls = Space | Word | Digit | Dot | OpenBracket

fun in_cls :: "cls \<Rightarrow> char \<Rightarrow> bool" where
  "in_cls Space c = is_space c"
| "in_cls Word c = is_word c"
| "in_cls Digit c = is_digit c"
| "in_cls Dot c = is_dot c"
| "in_cls OpenBracket c = (c = CHR ''['' \<or> c = CHR ''{'')"

datatype re =
    Lit string
  | One cls
  | Rep cls nat
  | RepLazy cls nat
  | Cap cls nat
  | NotAhead "re list"
  | Bol
  | Eol

text \<open>The first alternative that succeeds, in the order tried.\<close>

fun first_some :: "('a \<Rightarrow> 'b option) \<Rightarrow> 'a list \<Rightarrow> 'b option" where
  "first_some f [] = None"
| "first_some f (x # xs) = (case f x of Some y \<Rightarrow> Some y | None \<Rightarrow> first_some f xs)"

text \<open>The length of the longest run of characters of a class at the start of a text.\<close>

definition run_of :: "cls \<Rightarrow> string \<Rightarrow> nat" where
  "run_of c s = length (takeWhile (in_cls c) s)"

text \<open>
  The backtracking matcher. \<open>match_at rs behind s\<close> matches the items \<open>rs\<close> at the position
  that has the text \<open>s\<close> in front of it and the text \<open>behind\<close> behind it (nearest character
  first); it gives the captures of the first match in backtracking order and the text left
  in front of the end of the match. \<open>Rep c n\<close> is \<open>c{n,}\<close>: it tries the longest run first,
  then one character less at a time, down to \<open>n\<close>; \<open>RepLazy c n\<close> is \<open>c{n,}?\<close> and tries \<open>n\<close>
  first, then one character more at a time; \<open>Cap c n\<close> is \<open>(c{n,})\<close>. \<open>Bol\<close> holds at the start
  of the text and behind a line terminator, \<open>Eol\<close> at the end of the text and in front of a
  line terminator.
\<close>

fun match_at :: "re list \<Rightarrow> string \<Rightarrow> string \<Rightarrow> (string list \<times> string) option" where
  "match_at [] behind s = Some ([], s)"
| "match_at (Lit l # rs) behind s =
     (if prefix l s then match_at rs (rev l @ behind) (drop (length l) s) else None)"
| "match_at (One c # rs) behind s =
     (case s of
        [] \<Rightarrow> None
      | x # xs \<Rightarrow> if in_cls c x then match_at rs (x # behind) xs else None)"
| "match_at (Rep c n # rs) behind s =
     first_some (\<lambda>k. match_at rs (rev (take k s) @ behind) (drop k s))
                (rev [n ..< Suc (run_of c s)])"
| "match_at (RepLazy c n # rs) behind s =
     first_some (\<lambda>k. match_at rs (rev (take k s) @ behind) (drop k s))
                [n ..< Suc (run_of c s)]"
| "match_at (Cap c n # rs) behind s =
     first_some (\<lambda>k. case match_at rs (rev (take k s) @ behind) (drop k s) of
                        None \<Rightarrow> None
                      | Some (caps, rest) \<Rightarrow> Some (take k s # caps, rest))
                (rev [n ..< Suc (run_of c s)])"
| "match_at (NotAhead la # rs) behind s =
     (case match_at la behind s of None \<Rightarrow> match_at rs behind s | Some found \<Rightarrow> None)"
| "match_at (Bol # rs) behind s =
     (if behind = [] \<or> is_line_terminator (hd behind) then match_at rs behind s else None)"
| "match_at (Eol # rs) behind s =
     (if s = [] \<or> is_line_terminator (hd s) then match_at rs behind s else None)"

text \<open>
  \<open>re.exec(text)\<close> from the position with \<open>s\<close> in front: the leftmost position at which the
  pattern matches. The result is the match array (the matched text, then the captures) and
  the position of the end of the match, which is the next \<open>lastIndex\<close> of a pattern with
  the \<open>g\<close> flag. \<open>re.test(text)\<close> and \<open>text.match(re)\<close> of a pattern without \<open>g\<close> are
  \<open>regex_exec re [] text\<close>.
\<close>

fun regex_exec :: "re list \<Rightarrow> string \<Rightarrow> string \<Rightarrow> (string list \<times> string \<times> string) option" where
  "regex_exec rs behind s =
     (case match_at rs behind s of
        Some (caps, rest) \<Rightarrow>
          Some (take (length s - length rest) s # caps,
                rev (take (length s - length rest) s) @ behind, rest)
      | None \<Rightarrow> (case s of [] \<Rightarrow> None | c # cs \<Rightarrow> regex_exec rs (c # behind) cs))"

declare regex_exec.simps [simp del]

lemma first_some_SomeD:
  "first_some f xs = Some y \<Longrightarrow> \<exists>x \<in> set xs. f x = Some y"
  by (induction xs) (auto split: option.splits)

lemma match_at_length:
  "match_at rs behind s = Some (caps, rest) \<Longrightarrow> length rest \<le> length s"
proof (induction rs behind s arbitrary: caps rest rule: match_at.induct)
  case (4 c n rs behind s)
  from first_some_SomeD[OF "4.prems"[unfolded match_at.simps]]
  obtain k where "match_at rs (rev (take k s) @ behind) (drop k s) = Some (caps, rest)" by blast
  from "4.IH"[OF this] show ?case by simp
next
  case (5 c n rs behind s)
  from first_some_SomeD[OF "5.prems"[unfolded match_at.simps]]
  obtain k where "match_at rs (rev (take k s) @ behind) (drop k s) = Some (caps, rest)" by blast
  from "5.IH"[OF this] show ?case by simp
next
  case (6 c n rs behind s)
  from first_some_SomeD[OF "6.prems"[unfolded match_at.simps]]
  obtain k caps' where "match_at rs (rev (take k s) @ behind) (drop k s) = Some (caps', rest)"
    by (auto split: option.splits)
  from "6.IH"[OF this] show ?case by simp
qed (auto split: if_splits list.splits option.splits, fastforce+)

lemma regex_exec_SomeD:
  "regex_exec rs behind s = Some (arr, behind', s') \<Longrightarrow>
     \<exists>u t caps. s = u @ t \<and> match_at rs (rev u @ behind) t = Some (caps, s')"
proof (induction s arbitrary: behind)
  case Nil
  then show ?case by (auto simp: regex_exec.simps split: option.splits)
next
  case (Cons c cs)
  show ?case
  proof (cases "match_at rs behind (c # cs)")
    case None
    with Cons.prems have "regex_exec rs (c # behind) cs = Some (arr, behind', s')"
      by (simp add: regex_exec.simps)
    from Cons.IH[OF this] obtain u t caps
      where "cs = u @ t" "match_at rs (rev u @ c # behind) t = Some (caps, s')" by blast
    then have "c # cs = (c # u) @ t \<and> match_at rs (rev (c # u) @ behind) t = Some (caps, s')"
      by simp
    then show ?thesis by blast
  next
    case (Some r)
    with Cons.prems
    have "c # cs = [] @ (c # cs) \<and> match_at rs (rev [] @ behind) (c # cs) = Some (fst r, s')"
      by (auto simp: regex_exec.simps split: prod.splits)
    then show ?thesis by blast
  qed
qed

section \<open>The plan classifier\<close>

text \<open>The part \<open>\s*\(known after apply\)\<close> of the two lookaheads for a computed value.\<close>

definition known_after_apply :: "re list" where
  "known_after_apply = [Rep Space 0, Lit ''(known after apply)'']"

text \<open>\<open>/Plan: (\d+) to add, (\d+) to change, (\d+) to destroy/\<close>\<close>

definition summaryPattern :: "re list" where
  "summaryPattern = [Lit ''Plan: '', Cap Digit 1, Lit '' to add, '', Cap Digit 1,
                     Lit '' to change, '', Cap Digit 1, Lit '' to destroy'']"

text \<open>\<open>/~\s+(\w+)\s*=\s*.+?\s*->\s*(?!\s*\(known after apply\)).*/g\<close>\<close>

definition changePattern :: "re list" where
  "changePattern = [Lit ''~'', Rep Space 1, Cap Word 1, Rep Space 0, Lit ''='', Rep Space 0,
                    RepLazy Dot 1, Rep Space 0, Lit ''->'', Rep Space 0,
                    NotAhead known_after_apply, Rep Dot 0]"

text \<open>\<open>/^\s+\+\s+\w+\s*=\s*(?!\s*\(known after apply\)).+/m\<close>\<close>

definition additionPattern :: "re list" where
  "additionPattern = [Bol, Rep Space 1, Lit ''+'', Rep Space 1, Rep Word 1, Rep Space 0,
                      Lit ''='', Rep Space 0, NotAhead known_after_apply, Rep Dot 1]"

text \<open>\<open>/^\s+-\s+\w+\s*=\s*(?!.*->)(?!.*[\[{]\s*$).+$/m\<close>\<close>

definition deletionPattern :: "re list" where
  "deletionPattern = [Bol, Rep Space 1, Lit ''-'', Rep Space 1, Rep Word 1, Rep Space 0,
                      Lit ''='', Rep Space 0, NotAhead [Rep Dot 0, Lit ''->''],
                      NotAhead [Rep Dot 0, One OpenBracket, Rep Space 0, Eol],
                      Rep Dot 1, Eol]"

text \<open>
  A match of \<open>changePattern\<close> starts with \<open>~\<close>, so it is never empty and \<open>lastIndex\<close> moves
  forward with every match of the loop below.
\<close>

lemma changePattern_progress:
  assumes "regex_exec changePattern behind s = Some (arr, behind', s')"
  shows "length s' < length s"
proof -
  from regex_exec_SomeD[OF assms] obtain u t caps
    where ut: "s = u @ t" "match_at changePattern (rev u @ behind) t = Some (caps, s')" by blast
  from ut(2) obtain t' where t': "t = ''~'' @ t'"
      "match_at (tl changePattern) (rev ''~'' @ rev u @ behind) t' = Some (caps, s')"
    by (auto simp: changePattern_def prefix_def split: if_splits)
  from match_at_length[OF t'(2)] have "length s' \<le> length t'" .
  with ut(1) t'(1) show ?thesis by simp
qed

text \<open>
  The loop \<open>while ((match = changePattern.exec(plan)) !== null) changedAttrs.push(match[1])\<close>,
  from the position \<open>lastIndex\<close> with \<open>s\<close> in front.
\<close>

function changedAttrs_loop :: "string \<Rightarrow> string \<Rightarrow> string list" where
  "changedAttrs_loop behind s =
     (case regex_exec changePattern behind s of
        None \<Rightarrow> []
      | Some (arr, behind', s') \<Rightarrow> (arr ! 1) # changedAttrs_loop behind' s')"
  by pat_completeness auto
termination
  by (relation "measure (\<lambda>(behind, s). length s)") (auto dest: changePattern_progress)

text \<open>
  \<open>parseInt\<close> on a captured run of decimal digits. The source compares the result with 0
  only; it is positive as a double exactly when it is positive as a natural number.
\<close>

definition parseInt :: "string \<Rightarrow> nat" where
  "parseInt ds = fold (\<lambda>c n. 10 * n + (of_char c - 48)) ds 0"

definition codeAttrs :: "string list" where
  "codeAttrs = [''content_sha256'', ''content'']"

text \<open>
  The returned object. \<open>shouldCollapse\<close> is the result of \<open>!!\<close>, the two \<open>hasReal\<close> fields of
  \<open>test\<close> and \<open>hasResourceChanges\<close> of \<open>||\<close> over \<open>includes\<close>: booleans. \<open>hasOnlyUpdates\<close> is
  the value of an \<open>&&\<close> chain that starts with the match result.
\<close>

record classification =
  shouldCollapse :: bool
  hasOnlyUpdates :: jsval
  changedAttrs :: "string list"
  hasRealAdditions :: bool
  hasRealDeletions :: bool
  hasResourceChanges :: bool

text \<open>
  \<open>shouldCollapsePlan\<close>. \<open>summaryMatch && e\<close> is \<open>null\<close> when there is no match and the value of
  \<open>e\<close>, a boolean, when there is one (a match array is truthy).
\<close>

definition shouldCollapsePlan :: "string \<Rightarrow> classification" where
  "shouldCollapsePlan plan =
     (let summaryMatch = regex_exec summaryPattern [] plan;
          hasOnlyUpdates =
            (case summaryMatch of
               None \<Rightarrow> JNull
             | Some (arr, found) \<Rightarrow>
                 JBool (arr ! 1 = ''0'' \<and> arr ! 3 = ''0'' \<and> parseInt (arr ! 2) > 0));
          changedAttrs = changedAttrs_loop [] plan;
          hasRealAdditions = (regex_exec additionPattern [] plan \<noteq> None);
          hasRealDeletions = (regex_exec deletionPattern [] plan \<noteq> None);
          isWorkerCodeOnly =
            js_and (js_and (js_and (js_and hasOnlyUpdates (JBool (\<not> hasRealAdditions)))
                                   (JBool (\<not> hasRealDeletions)))
                           (JBool (length changedAttrs > 0)))
                   (JBool (list_all (\<lambda>attr. attr \<in> set codeAttrs) changedAttrs));
          hasResourceChanges =
            (str_includes plan ''will be created'' \<or> str_includes plan ''will be destroyed''
             \<or> str_includes plan ''must be replaced'');
          shouldCollapse = truthy (js_and isWorkerCodeOnly (JBool (\<not> hasResourceChanges)))
      in \<lparr>shouldCollapse = shouldCollapse, hasOnlyUpdates = hasOnlyUpdates,
          changedAttrs = changedAttrs, hasRealAdditions = hasRealAdditions,
          hasRealDeletions = hasRealDeletions, hasResourceChanges = hasResourceChanges\<rparr>)"

section \<open>CODEOWNERS\<close>

text \<open>The class \<open>[\w.\-]\<close> of the owner pattern.\<close>

definition is_owner_char :: "char \<Rightarrow> bool" where
  "is_owner_char c = (is_word c \<or> c = CHR ''.'' \<or> c = CHR ''-'')"

text \<open>
  \<open>s.matchAll(/@([\w.\-]+)/g)\<close>, giving capture group 1 of every match from left to right.
  A match starts at an \<open>@\<close> followed by at least one character of the class and takes the
  longest run of them; the search goes on behind the match. An \<open>@\<close> with no such character
  behind it is no match and the search goes on behind it.
\<close>

function matchAll_owner :: "string \<Rightarrow> string list" where
  "matchAll_owner [] = []"
| "matchAll_owner (c # cs) =
     (if c = CHR ''@'' \<and> takeWhile is_owner_char cs \<noteq> []
      then takeWhile is_owner_char cs # matchAll_owner (dropWhile is_owner_char cs)
      else matchAll_owner cs)"
  by pat_completeness auto
termination
  by (relation "measure length") (auto simp: length_dropWhile_le less_Suc_eq_le)

text \<open>\<open>owners.add(owner)\<close> on a \<open>Set\<close>, kept as the list of its members in insertion order.\<close>

definition set_add :: "string \<Rightarrow> string list \<Rightarrow> string list" where
  "set_add x xs = (if x \<in> set xs then xs else xs @ [x])"

text \<open>The body of the loop over the lines of the file.\<close>

definition codeowners_line :: "string list \<Rightarrow> string \<Rightarrow> string list" where
  "codeowners_line owners line =
     (if prefix ''#'' line \<or> list_all is_space line then owners
      else fold set_add (matchAll_owner (hd (split_on CHR ''#'' line))) owners)"

text \<open>
  \<open>parseCodeowners\<close>. The argument is what \<open>fs.readFileSync(codeownersPath, 'utf8')\<close> gives:
  the content, or \<open>None\<close> when it throws, in which case the \<open>catch\<close> returns \<open>null\<close>.
\<close>

definition parseCodeowners :: "string option \<Rightarrow> string list option" where
  "parseCodeowners file =
     (case file of
        None \<Rightarrow> None
      | Some content \<Rightarrow> Some (fold (\<lambda>line owners. codeowners_line owners line)
                                  (split_on CHR 0x0A content) []))"

section \<open>The action context and the outside world\<close>

text \<open>
  A fetched review: \<open>user\<close> is the login of \<open>r.user\<close>, or \<open>None\<close> when \<open>r.user\<close> is \<open>null\<close> (the
  account of the reviewer no longer exists); \<open>state\<close> is \<open>r.state\<close>.
\<close>

record review =
  user :: "string option"
  state :: string

text \<open>
  \<open>context.payload.pull_request\<close>: the fields the code reads. \<open>number\<close> and \<open>user_login\<close>
  (\<open>user?.login\<close>) are \<open>None\<close> when they read as \<open>undefined\<close>; \<open>labels\<close> is the list of the
  labels' names, \<open>None\<close> when the payload has no labels.
\<close>

record pull_request =
  number :: "nat option"
  user_login :: "string option"
  labels :: "string list option"

record action_context =
  payload_pull_request :: "pull_request option"

text \<open>
  What rejects a call: a failed request to the reviews API, or the TypeError of reading
  \<open>login\<close> from a \<open>null\<close> user.
\<close>

datatype error = RequestError | TypeError

text \<open>
  What the code reads from outside: the outcome of \<open>github.paginate(listReviews)\<close> (the list
  of all reviews in fetch order, or a rejected promise), of reading \<open>.github/CODEOWNERS\<close>, and
  of \<open>JSON.parse(fs.readFileSync(reportPath))\<close> (\<open>None\<close> when either throws).
\<close>

record world =
  listReviews :: "error + review list"
  codeowners_file :: "string option"
  report_json :: "jsval option"

text \<open>The reads a call performs, in order.\<close>

datatype io = ReadReport | ListReviews | ReadCodeowners

section \<open>Codeowner approval\<close>

text \<open>\<open>context.payload.pull_request?.number\<close>.\<close>

definition pull_number :: "action_context \<Rightarrow> nat option" where
  "pull_number ctx = (case payload_pull_request ctx of None \<Rightarrow> None | Some pr \<Rightarrow> number pr)"

text \<open>\<open>!pull_number\<close>: undefined or 0.\<close>

definition no_pull_number :: "action_context \<Rightarrow> bool" where
  "no_pull_number ctx = (case pull_number ctx of None \<Rightarrow> True | Some n \<Rightarrow> n = 0)"

text \<open>\<open>context.payload.pull_request?.user?.login\<close>.\<close>

definition pr_author :: "action_context \<Rightarrow> string option" where
  "pr_author ctx = (case payload_pull_request ctx of None \<Rightarrow> None | Some pr \<Rightarrow> user_login pr)"

definition meaningfulStates :: "string list" where
  "meaningfulStates = [''APPROVED'', ''CHANGES_REQUESTED'', ''DISMISSED'']"

text \<open>
  The loop filling the \<open>Map\<close> \<open>latestReviews\<close>. The map is the list of its entries in
  insertion order; \<open>set\<close> on a key that is present replaces the value in place. The key
  \<open>review.user.login\<close> is read only for a review in a meaningful state.
\<close>

fun latestReviews_loop ::
  "review list \<Rightarrow> (string \<times> string) list \<Rightarrow> error + (string \<times> string) list" where
  "latestReviews_loop [] m = Inr m"
| "latestReviews_loop (r # rs) m =
     (if state r \<in> set meaningfulStates
      then (case user r of
              None \<Rightarrow> Inl TypeError
            | Some l \<Rightarrow> latestReviews_loop rs (AList.update l (state r) m))
      else latestReviews_loop rs m)"

definition latestReviews :: "review list \<Rightarrow> error + (string \<times> string) list" where
  "latestReviews validReviews = latestReviews_loop validReviews []"

text \<open>The final loop over the entries, returning at the first approving codeowner.\<close>

fun approved_by_owner :: "(string \<times> string) list \<Rightarrow> string list \<Rightarrow> bool" where
  "approved_by_owner [] codeowners = False"
| "approved_by_owner ((u, st) # es) codeowners =
     (if st = ''APPROVED'' \<and> u \<in> set codeowners then True else approved_by_owner es codeowners)"

text \<open>
  \<open>isSoleDev\<close>. \<open>codeowners.has(prAuthor)\<close> is false for an undefined author, and
  \<open>prAuthorBase\<close> is \<open>''''\<close> for an undefined author or an empty stripped name.
\<close>

definition prAuthorBase :: "string option \<Rightarrow> string" where
  "prAuthorBase prAuthor = (case prAuthor of None \<Rightarrow> [] | Some a \<Rightarrow> strip_bot a)"

definition isSoleDev :: "string list \<Rightarrow> string option \<Rightarrow> bool" where
  "isSoleDev codeowners prAuthor =
     (length codeowners = 1 \<and>
      ((case prAuthor of None \<Rightarrow> False | Some a \<Rightarrow> a \<in> set codeowners)
       \<or> prAuthorBase prAuthor \<in> set codeowners))"

text \<open>
  \<open>reviews.filter(r => r.user.login !== prAuthor)\<close>. The callback runs on the reviews in
  order and reads \<open>r.user.login\<close> with no guard: on the first review whose user is \<open>null\<close>
  it throws, and the filter gives no list.
\<close>

fun validReviews :: "review list \<Rightarrow> string option \<Rightarrow> error + review list" where
  "validReviews [] prAuthor = Inr []"
| "validReviews (r # rs) prAuthor =
     (case user r of
        None \<Rightarrow> Inl TypeError
      | Some l \<Rightarrow>
          (case validReviews rs prAuthor of
             Inl e \<Rightarrow> Inl e
           | Inr kept \<Rightarrow> Inr (if Some l \<noteq> prAuthor then r # kept else kept)))"

text \<open>
  \<open>checkCodeownersApproval\<close>, with the reads it performs. A rejected \<open>paginate\<close> rejects the
  call (\<open>Inl\<close>), and so does a TypeError of the filter or of the loop.
\<close>

definition checkCodeownersApproval :: "world \<Rightarrow> action_context \<Rightarrow> io list \<times> (error + bool)" where
  "checkCodeownersApproval w ctx =
     (if no_pull_number ctx then ([], Inr False)
      else case listReviews w of
        Inl e \<Rightarrow> ([ListReviews], Inl e)
      | Inr reviews \<Rightarrow>
          ([ListReviews, ReadCodeowners],
           case parseCodeowners (codeowners_file w) of
             None \<Rightarrow> Inr False
           | Some codeowners \<Rightarrow>
               if length codeowners = 0 then Inr False
               else if isSoleDev codeowners (pr_author ctx) then Inr True
               else (case validReviews reviews (pr_author ctx) of
                       Inl e \<Rightarrow> Inl e
                     | Inr kept \<Rightarrow>
                         (case latestReviews kept of
                            Inl e \<Rightarrow> Inl e
                          | Inr latest \<Rightarrow> Inr (approved_by_owner latest codeowners)))))"

section \<open>The coverage gate\<close>

record coverage_data =
  percent :: jsnum
  totalLines :: jsnum
  parseError :: bool
  crashFallback :: jsval

text \<open>
  \<open>getCoverageData\<close>. A throwing read, a throwing \<open>JSON.parse\<close> and a throwing property read
  all end in the \<open>catch\<close>. The two early results have no \<open>crashFallback\<close> property.
\<close>

definition parse_failed :: coverage_data where
  "parse_failed = \<lparr>percent = Num 0, totalLines = Num 0, parseError = True, crashFallback = JUndefined\<rparr>"

definition getCoverageData :: "jsval option \<Rightarrow> coverage_data" where
  "getCoverageData parsed =
     (case parsed of
        None \<Rightarrow> parse_failed
      | Some data \<Rightarrow>
          (case (get_field data ''total_percent_covered'', get_field data ''total_num_lines'',
                 get_field data ''crash_fallback'') of
             (Some (JNumber p), Some (JNumber n), Some c) \<Rightarrow>
               \<lparr>percent = p, totalLines = n, parseError = False, crashFallback = JBool (c = JBool True)\<rparr>
           | _ \<Rightarrow> parse_failed))"

record telemetry_event =
  event :: string
  actual_coverage :: jsnum
  threshold :: jsnum
  has_approval :: bool

record gate_decision =
  shouldFail :: jsval
  coveragePercent :: jsval
  reason :: jsval
  overrideApplied :: jsval
  telemetryEvents :: "telemetry_event list"

text \<open>\<open>labels.some(l => l.name === 'coverage-override')\<close> on \<open>pull_request?.labels || []\<close>.\<close>

definition hasOverrideLabel :: "action_context \<Rightarrow> bool" where
  "hasOverrideLabel ctx =
     (''coverage-override'' \<in> set (case payload_pull_request ctx of
                                      None \<Rightarrow> []
                                    | Some pr \<Rightarrow> (case labels pr of None \<Rightarrow> [] | Some ls \<Rightarrow> ls)))"

text \<open>
  \<open>analyzeCoverageResults\<close>. \<open>str\<close> is the conversion of a number to a string that the
  template literals apply to \<open>coveragePercent\<close> and \<open>threshold\<close>. The first component of
  the result lists the reads performed; a rejected \<open>checkCodeownersApproval\<close> rejects the call.
  The threshold is a number.
  The dash in the second reason is written as the three bytes of its UTF-8 encoding.
\<close>

definition analyzeCoverageResults ::
  "(jsnum \<Rightarrow> string) \<Rightarrow> world \<Rightarrow> jsnum \<Rightarrow> action_context \<Rightarrow> io list \<times> (error + gate_decision)" where
  "analyzeCoverageResults str w thr ctx =
     (let cd = getCoverageData (report_json w) in
      if parseError cd then
        ([ReadReport],
         Inr \<lparr>shouldFail = JBool True, coveragePercent = JNumber NaN,
              reason = JString ''Coverage report missing or invalid JSON'',
              overrideApplied = JUndefined, telemetryEvents = []\<rparr>)
      else if truthy (crashFallback cd) then
        ([ReadReport],
         Inr \<lparr>shouldFail = JBool True, coveragePercent = JNumber NaN,
              reason = JString (''diff-cover exited non-zero (LCOV parse error or crash) ''
                                @ [CHR 0xE2, CHR 0x80, CHR 0x94]
                                @ '' coverage check skipped is not permitted''),
              overrideApplied = JUndefined, telemetryEvents = []\<rparr>)
      else if totalLines cd = Num 0 then
        ([ReadReport],
         Inr \<lparr>shouldFail = JBool False, coveragePercent = JNumber (Num 100),
              reason = JString ''No executable lines to cover (doc/config-only PR)'',
              overrideApplied = JUndefined, telemetryEvents = []\<rparr>)
      else if \<not> jslt (percent cd) thr then
        ([ReadReport],
         Inr \<lparr>shouldFail = JBool False, coveragePercent = JNumber (percent cd),
              reason = JUndefined, overrideApplied = JUndefined, telemetryEvents = []\<rparr>)
      else if hasOverrideLabel ctx then
        (case checkCodeownersApproval w ctx of
           (t, Inl e) \<Rightarrow> (ReadReport # t, Inl e)
         | (t, Inr hasApproval) \<Rightarrow>
             if \<not> hasApproval then
               (ReadReport # t,
                Inr \<lparr>shouldFail = JBool True, coveragePercent = JNumber (percent cd),
                     reason = JString ''coverage-override label requires CODEOWNERS approval'',
                     overrideApplied = JUndefined,
                     telemetryEvents =
                       [\<lparr>event = ''coverage_override_without_approval'',
                         actual_coverage = percent cd, threshold = thr, has_approval = False\<rparr>]\<rparr>)
             else
               (ReadReport # t,
                Inr \<lparr>shouldFail = JBool False, coveragePercent = JNumber (percent cd),
                     reason = JString (''Coverage '' @ str (percent cd) @ ''% below '' @ str thr
                                       @ ''% (override applied)''),
                     overrideApplied = JBool True,
                     telemetryEvents =
                       [\<lparr>event = ''coverage_override_applied'',
                         actual_coverage = percent cd, threshold = thr, has_approval = True\<rparr>]\<rparr>))
      else
        ([ReadReport],
         Inr \<lparr>shouldFail = JBool True, coveragePercent = JNumber (percent cd),
              reason = JString (''Coverage '' @ str (percent cd) @ ''% below '' @ str thr
                                @ ''% threshold''),
              overrideApplied = JUndefined, telemetryEvents = []\<rparr>))"

section \<open>Reference definitions and sample inputs\<close>

text \<open>
  The approval rule as the specification words it. A review is meaningful when its state is
  \<open>APPROVED\<close>, \<open>CHANGES_REQUESTED\<close> or \<open>DISMISSED\<close>. The latest meaningful state of reviewer
  \<open>u\<close> in a review list in fetch order is the state of the last meaningful review by \<open>u\<close>,
  none when \<open>u\<close> has no such review; reviews in any other state neither count nor
  overwrite. Approval is granted when some member of the owner set other than the author
  has \<open>APPROVED\<close> as latest meaningful state.
\<close>

definition claimed_meaningful :: "string \<Rightarrow> bool" where
  "claimed_meaningful st =
     (st = ''APPROVED'' \<or> st = ''CHANGES_REQUESTED'' \<or> st = ''DISMISSED'')"

definition latest_meaningful_state :: "string \<Rightarrow> review list \<Rightarrow> string option" where
  "latest_meaningful_state u reviews =
     (case rev (filter (\<lambda>r. user r = Some u \<and> claimed_meaningful (state r)) reviews) of
        [] \<Rightarrow> None
      | r # earlier \<Rightarrow> Some (state r))"

definition claimed_approval :: "string list \<Rightarrow> string option \<Rightarrow> review list \<Rightarrow> bool" where
  "claimed_approval owners author reviews =
     (\<exists>u \<in> set owners. Some u \<noteq> author
                        \<and> latest_meaningful_state u reviews = Some ''APPROVED'')"

text \<open>The inputs on which the gate passes on coverage alone (step 4 of the gate).\<close>

definition plain_pass :: "world \<Rightarrow> jsnum \<Rightarrow> bool" where
  "plain_pass w thr =
     (let cd = getCoverageData (report_json w) in
      \<not> parseError cd \<and> \<not> truthy (crashFallback cd) \<and> totalLines cd \<noteq> Num 0
      \<and> \<not> jslt (percent cd) thr)"

text \<open>
  A stand-in for the number formatting, to run the gate on concrete inputs; no statement
  below depends on what it returns.
\<close>

definition no_format :: "jsnum \<Rightarrow> string" where
  "no_format n = ''#''"

text \<open>
  Sample inputs: a pull request by carol carrying the override label, in a repository
  owned by alice and bob where alice first requested changes, then approved, then commented;
  and a pull request by \<open>dave-bot\<close> in a repository owned by dave alone.
\<close>

definition team_ctx :: action_context where
  "team_ctx = \<lparr>payload_pull_request =
                 Some \<lparr>number = Some 7, user_login = Some ''carol'',
                       labels = Some [''coverage-override'']\<rparr>\<rparr>"

definition team_reviews :: "review list" where
  "team_reviews = [\<lparr>user = Some ''alice'', state = ''CHANGES_REQUESTED''\<rparr>,
                   \<lparr>user = Some ''alice'', state = ''APPROVED''\<rparr>,
                   \<lparr>user = Some ''alice'', state = ''COMMENTED''\<rparr>]"

definition low_report :: jsval where
  "low_report = JObject [(''total_percent_covered'', JNumber (Num 70)),
                         (''total_num_lines'', JNumber (Num 10))]"

definition team_world :: world where
  "team_world = \<lparr>listReviews = Inr team_reviews, codeowners_file = Some ''* @alice @bob'',
                  report_json = Some low_report\<rparr>"

text \<open>
  The same repository and pull request, where alice approved and a reviewer whose account
  was since deleted left a comment.
\<close>

definition ghost_reviews :: "review list" where
  "ghost_reviews = [\<lparr>user = Some ''alice'', state = ''APPROVED''\<rparr>,
                    \<lparr>user = None, state = ''COMMENTED''\<rparr>]"

definition ghost_world :: world where
  "ghost_world = \<lparr>listReviews = Inr ghost_reviews, codeowners_file = Some ''* @alice @bob'',
                   report_json = Some low_report\<rparr>"

definition solo_ctx :: action_context where
  "solo_ctx = \<lparr>payload_pull_request =
                 Some \<lparr>number = Some 12, user_login = Some ''dave-bot'',
                       labels = Some [''coverage-override'']\<rparr>\<rparr>"

definition solo_world :: world where
  "solo_world = \<lparr>listReviews = Inr [], codeowners_file = Some ''* @dave'',
                  report_json = Some low_report\<rparr>"

definition push_ctx :: action_context where
  "push_ctx = \<lparr>payload_pull_request = None\<rparr>"

definition missing_world :: world where
  "missing_world = \<lparr>listReviews = Inr [], codeowners_file = None, report_json = None\<rparr>"

definition invalid_decision :: gate_decision where
  "invalid_decision = \<lparr>shouldFail = JBool True, coveragePercent = JNumber NaN,
                         reason = JString ''Coverage report missing or invalid JSON'',
                         overrideApplied = JUndefined, telemetryEvents = []\<rparr>"

definition crash_world :: world where
  "crash_world = \<lparr>listReviews = Inr team_reviews, codeowners_file = Some ''* @alice @bob'',
                   report_json = Some (JObject [(''total_percent_covered'', JNumber (Num 100)),
                                                (''total_num_lines'', JNumber (Num 0)),
                                                (''crash_fallback'', JBool True)])\<rparr>"

text \<open>
  What it means for a pattern to match at a position, said without an order of attempts:
  \<open>can_match rs behind s\<close> holds when the text \<open>s\<close> can be cut into consecutive pieces, one for
  each item of \<open>rs\<close>, each piece as its item demands, followed by any rest. The matcher
  above finds a match exactly when there is one in this sense (lemma \<open>match_at_iff\<close>).
\<close>

fun can_match :: "re list \<Rightarrow> string \<Rightarrow> string \<Rightarrow> bool" where
  "can_match [] behind s = True"
| "can_match (Lit l # rs) behind s = (\<exists>t. s = l @ t \<and> can_match rs (rev l @ behind) t)"
| "can_match (One c # rs) behind s =
     (\<exists>x t. s = x # t \<and> in_cls c x \<and> can_match rs (x # behind) t)"
| "can_match (Rep c n # rs) behind s =
     (\<exists>u t. s = u @ t \<and> n \<le> length u \<and> list_all (in_cls c) u \<and> can_match rs (rev u @ behind) t)"
| "can_match (RepLazy c n # rs) behind s =
     (\<exists>u t. s = u @ t \<and> n \<le> length u \<and> list_all (in_cls c) u \<and> can_match rs (rev u @ behind) t)"
| "can_match (Cap c n # rs) behind s =
     (\<exists>u t. s = u @ t \<and> n \<le> length u \<and> list_all (in_cls c) u \<and> can_match rs (rev u @ behind) t)"
| "can_match (NotAhead la # rs) behind s = (\<not> can_match la behind s \<and> can_match rs behind s)"
| "can_match (Bol # rs) behind s =
     ((behind = [] \<or> is_line_terminator (hd behind)) \<and> can_match rs behind s)"
| "can_match (Eol # rs) behind s =
     ((s = [] \<or> is_line_terminator (hd s)) \<and> can_match rs behind s)"

text \<open>The text starts with optional whitespace and then the placeholder of a computed value.\<close>

definition placeholder_ahead :: "string \<Rightarrow> bool" where
  "placeholder_ahead t = (\<exists>ws r. t = ws @ ''(known after apply)'' @ r \<and> list_all is_space ws)"

text \<open>
  A summary starts here: \<open>Plan: <add> to add, <change> to change, <destroy> to destroy\<close>
  with three non-empty runs of digits.
\<close>

definition summary_at :: "string \<Rightarrow> bool" where
  "summary_at s =
     (\<exists>a b c after. s = ''Plan: '' @ a @ '' to add, '' @ b @ '' to change, '' @ c @ '' to destroy'' @ after
        \<and> a \<noteq> [] \<and> list_all is_digit a \<and> b \<noteq> [] \<and> list_all is_digit b
        \<and> c \<noteq> [] \<and> list_all is_digit c)"

definition summary_in :: "string \<Rightarrow> bool" where
  "summary_in plan = (\<exists>before s. plan = before @ s \<and> summary_at s)"

text \<open>
  An attribute addition starts here: whitespace, \<open>+\<close>, whitespace, a name, optional
  whitespace, \<open>=\<close>, optional whitespace, then a value \<open>v\<close> of at least one character, none
  of them a line terminator, such that the text from the value on does not start with the
  placeholder. Whitespace includes line terminators.
\<close>

definition addition_at :: "string \<Rightarrow> bool" where
  "addition_at s =
     (\<exists>ws1 ws2 name ws3 ws4 v after.
        s = ws1 @ ''+'' @ ws2 @ name @ ws3 @ ''='' @ ws4 @ v @ after
        \<and> ws1 \<noteq> [] \<and> list_all is_space ws1 \<and> ws2 \<noteq> [] \<and> list_all is_space ws2
        \<and> name \<noteq> [] \<and> list_all is_word name \<and> list_all is_space ws3 \<and> list_all is_space ws4
        \<and> v \<noteq> [] \<and> list_all is_dot v \<and> \<not> placeholder_ahead (v @ after))"

text \<open>A position is at the start of a line: nothing or a line terminator right before it.\<close>

definition at_line_start :: "string \<Rightarrow> bool" where
  "at_line_start before = (before = [] \<or> is_line_terminator (last before))"

definition real_addition_in :: "string \<Rightarrow> bool" where
  "real_addition_in plan =
     (\<exists>before s. plan = before @ s \<and> at_line_start before \<and> addition_at s)"

text \<open>
  The reading of \<open>hasRealAdditions\<close> in the specification: some line of the plan is an
  attribute addition whose value is not the placeholder, and that line does not open a
  multi-line block, that is, it does not end in \<open>[\<close> or \<open>{\<close> (as the deletion pattern has it:
  \<open>[\[{]\s*$\<close>).
\<close>

definition block_opener :: "string \<Rightarrow> bool" where
  "block_opener line =
     (case dropWhile is_space (rev line) of
        [] \<Rightarrow> False
      | c # cs \<Rightarrow> c = CHR ''['' \<or> c = CHR ''{'')"

definition claimed_hasRealAdditions :: "string \<Rightarrow> bool" where
  "claimed_hasRealAdditions plan =
     (\<exists>line \<in> set (split_on CHR 0x0A plan). addition_at line \<and> \<not> block_opener line)"

text \<open>Sample plans, given by their lines.\<close>

definition text_of :: "string list \<Rightarrow> string" where
  "text_of ls = concat (map (\<lambda>l. l @ [CHR 0x0A]) ls)"

definition collapse_plan :: string where
  "collapse_plan = text_of
     [''  ~ content_sha256 = \"abc\" -> \"def\"'',
      ''  + status = (known after apply)'',
      ''Plan: 0 to add, 1 to change, 0 to destroy.'']"

definition created_plan :: string where
  "created_plan = text_of
     [''  # x will be created'',
      ''  ~ content = \"a\" -> \"b\"'',
      ''Plan: 0 to add, 1 to change, 0 to destroy.'']"

definition block_plan :: string where
  "block_plan = ''  + tags = {''"

section \<open>Lemmas on the matcher\<close>

lemma first_some_None_iff:
  "first_some f xs = None \<longleftrightarrow> (\<forall>x \<in> set xs. f x = None)"
  by (induction xs) (auto split: option.splits)

lemma first_some_down:
  "first_some f (rev [n ..< Suc r]) \<noteq> None \<longleftrightarrow> (\<exists>k. n \<le> k \<and> k \<le> r \<and> f k \<noteq> None)"
  by (auto simp: first_some_None_iff less_Suc_eq_le simp del: upt_Suc)

lemma first_some_up:
  "first_some f [n ..< Suc r] \<noteq> None \<longleftrightarrow> (\<exists>k. n \<le> k \<and> k \<le> r \<and> f k \<noteq> None)"
  by (auto simp: first_some_None_iff less_Suc_eq_le simp del: upt_Suc)

lemma run_split:
  "(\<exists>k. n \<le> k \<and> k \<le> run_of c s \<and> P (take k s) (drop k s)) \<longleftrightarrow>
   (\<exists>u t. s = u @ t \<and> n \<le> length u \<and> list_all (in_cls c) u \<and> P u t)"
proof
  assume "\<exists>k. n \<le> k \<and> k \<le> run_of c s \<and> P (take k s) (drop k s)"
  then obtain k where k: "n \<le> k" "k \<le> run_of c s" "P (take k s) (drop k s)" by blast
  have "take k s = take k (takeWhile (in_cls c) s)"
    using k(2) unfolding run_of_def
    by (metis append_eq_conv_conj takeWhile_dropWhile_id take_append take_all_iff
          append_take_drop_id diff_is_0_eq' take_0 append_Nil2 length_take min.absorb2)
  then have "list_all (in_cls c) (take k s)"
    by (metis in_set_takeD list_all_iff set_takeWhileD)
  moreover have "length (take k s) = k"
    using k(2) unfolding run_of_def
    by (metis length_take min.absorb2 length_takeWhile_le le_trans)
  ultimately show "\<exists>u t. s = u @ t \<and> n \<le> length u \<and> list_all (in_cls c) u \<and> P u t"
    using k(1,3) by (metis append_take_drop_id)
next
  assume "\<exists>u t. s = u @ t \<and> n \<le> length u \<and> list_all (in_cls c) u \<and> P u t"
  then obtain u t where u: "s = u @ t" "n \<le> length u" "list_all (in_cls c) u" "P u t" by blast
  have "takeWhile (in_cls c) s = u @ takeWhile (in_cls c) t"
    using u(1,3) by (simp add: list_all_iff takeWhile_append2)
  then have "length u \<le> run_of c s" by (simp add: run_of_def)
  then show "\<exists>k. n \<le> k \<and> k \<le> run_of c s \<and> P (take k s) (drop k s)"
    using u by auto
qed

lemma match_at_iff: "match_at rs behind s \<noteq> None \<longleftrightarrow> can_match rs behind s"
proof (induction rs behind s rule: match_at.induct)
  case (4 c n rs behind s)
  have "match_at (Rep c n # rs) behind s \<noteq> None \<longleftrightarrow>
        (\<exists>k. n \<le> k \<and> k \<le> run_of c s \<and> match_at rs (rev (take k s) @ behind) (drop k s) \<noteq> None)"
    by (simp only: match_at.simps first_some_down)
  also have "\<dots> \<longleftrightarrow> (\<exists>k. n \<le> k \<and> k \<le> run_of c s \<and> can_match rs (rev (take k s) @ behind) (drop k s))"
    using "4.IH" by simp
  also have "\<dots> \<longleftrightarrow> can_match (Rep c n # rs) behind s"
    using run_split[of n c s "\<lambda>u t. can_match rs (rev u @ behind) t"] by simp
  finally show ?case .
next
  case (5 c n rs behind s)
  have "match_at (RepLazy c n # rs) behind s \<noteq> None \<longleftrightarrow>
        (\<exists>k. n \<le> k \<and> k \<le> run_of c s \<and> match_at rs (rev (take k s) @ behind) (drop k s) \<noteq> None)"
    by (simp only: match_at.simps first_some_up)
  also have "\<dots> \<longleftrightarrow> (\<exists>k. n \<le> k \<and> k \<le> run_of c s \<and> can_match rs (rev (take k s) @ behind) (drop k s))"
    using "5.IH" by simp
  also have "\<dots> \<longleftrightarrow> can_match (RepLazy c n # rs) behind s"
    using run_split[of n c s "\<lambda>u t. can_match rs (rev u @ behind) t"] by simp
  finally show ?case .
next
  case (6 c n rs behind s)
  have "match_at (Cap c n # rs) behind s \<noteq> None \<longleftrightarrow>
        (\<exists>k. n \<le> k \<and> k \<le> run_of c s \<and> match_at rs (rev (take k s) @ behind) (drop k s) \<noteq> None)"
    by (simp only: match_at.simps first_some_down) (auto split: option.splits)
  also have "\<dots> \<longleftrightarrow> (\<exists>k. n \<le> k \<and> k \<le> run_of c s \<and> can_match rs (rev (take k s) @ behind) (drop k s))"
    using "6.IH" by simp
  also have "\<dots> \<longleftrightarrow> can_match (Cap c n # rs) behind s"
    using run_split[of n c s "\<lambda>u t. can_match rs (rev u @ behind) t"] by simp
  finally show ?case .
qed (auto simp: prefix_def split: list.splits option.splits)

lemma regex_exec_iff:
  "regex_exec rs behind s \<noteq> None \<longleftrightarrow> (\<exists>u t. s = u @ t \<and> can_match rs (rev u @ behind) t)"
proof (induction s arbitrary: behind)
  case Nil
  show ?case using match_at_iff[of rs behind "[]"]
    by (auto simp: regex_exec.simps split: option.splits)
next
  case (Cons c cs)
  have "regex_exec rs behind (c # cs) \<noteq> None \<longleftrightarrow>
        (match_at rs behind (c # cs) \<noteq> None \<or> regex_exec rs (c # behind) cs \<noteq> None)"
    by (auto simp: regex_exec.simps split: option.splits)
  also have "\<dots> \<longleftrightarrow> (can_match rs behind (c # cs)
                     \<or> (\<exists>u t. cs = u @ t \<and> can_match rs (rev u @ c # behind) t))"
    using Cons.IH[of "c # behind"] match_at_iff[of rs behind "c # cs"] by simp
  also have "\<dots> \<longleftrightarrow> (\<exists>u t. c # cs = u @ t \<and> can_match rs (rev u @ behind) t)"
    (is "?L \<longleftrightarrow> ?R")
  proof
    assume ?L
    then show ?R
    proof
      assume "can_match rs behind (c # cs)"
      then have "c # cs = [] @ (c # cs) \<and> can_match rs (rev [] @ behind) (c # cs)" by simp
      then show ?R by blast
    next
      assume "\<exists>u t. cs = u @ t \<and> can_match rs (rev u @ c # behind) t"
      then obtain u t where "cs = u @ t" "can_match rs (rev u @ c # behind) t" by blast
      then have "c # cs = (c # u) @ t \<and> can_match rs (rev (c # u) @ behind) t" by simp
      then show ?R by blast
    qed
  next
    assume ?R
    then obtain u t where ut: "c # cs = u @ t" "can_match rs (rev u @ behind) t" by blast
    show ?L
    proof (cases u)
      case Nil
      with ut show ?thesis by simp
    next
      case (Cons x u')
      with ut show ?thesis by auto
    qed
  qed
  finally show ?case .
qed

lemma can_match_LitI:
  "can_match rs (rev l @ behind) t \<Longrightarrow> can_match (Lit l # rs) behind (l @ t)"
  by simp

lemma can_match_RepI:
  "n \<le> length u \<Longrightarrow> list_all (in_cls c) u \<Longrightarrow> can_match rs (rev u @ behind) t
     \<Longrightarrow> can_match (Rep c n # rs) behind (u @ t)"
  by (simp only: can_match.simps) blast

lemma can_match_CapI:
  "n \<le> length u \<Longrightarrow> list_all (in_cls c) u \<Longrightarrow> can_match rs (rev u @ behind) t
     \<Longrightarrow> can_match (Cap c n # rs) behind (u @ t)"
  by (simp only: can_match.simps) blast

lemma can_match_LitE:
  assumes "can_match (Lit l # rs) behind s"
  obtains t where "s = l @ t" "can_match rs (rev l @ behind) t"
  using assms by (simp only: can_match.simps) blast

lemma can_match_RepE:
  assumes "can_match (Rep c n # rs) behind s"
  obtains u t where "s = u @ t" "n \<le> length u" "list_all (in_cls c) u"
    "can_match rs (rev u @ behind) t"
  using assms by (simp only: can_match.simps) blast

lemma can_match_CapE:
  assumes "can_match (Cap c n # rs) behind s"
  obtains u t where "s = u @ t" "n \<le> length u" "list_all (in_cls c) u"
    "can_match rs (rev u @ behind) t"
  using assms by (simp only: can_match.simps) blast

lemma in_cls_funs:
  "in_cls Space = is_space" "in_cls Word = is_word" "in_cls Digit = is_digit" "in_cls Dot = is_dot"
  by (rule ext, simp)+

lemma zero_le_length: "0 \<le> length xs \<longleftrightarrow> True"
  by simp

lemma one_le_length: "1 \<le> length xs \<longleftrightarrow> xs \<noteq> []"
  by (cases xs) simp_all

lemma summary_can_match:
  "can_match summaryPattern behind s \<longleftrightarrow> summary_at s"
proof
  assume "can_match summaryPattern behind s"
  then show "summary_at s"
    unfolding summaryPattern_def summary_at_def
    by (elim can_match_LitE can_match_CapE)
       (simp only: in_cls_funs one_le_length, blast)
next
  assume "summary_at s"
  then obtain a b c after
    where s: "s = ''Plan: '' @ a @ '' to add, '' @ b @ '' to change, '' @ c @ '' to destroy'' @ after"
      and d: "a \<noteq> []" "list_all is_digit a" "b \<noteq> []" "list_all is_digit b"
             "c \<noteq> []" "list_all is_digit c"
    unfolding summary_at_def by blast
  from d have e: "1 \<le> length a" "list_all (in_cls Digit) a"
      "1 \<le> length b" "list_all (in_cls Digit) b"
      "1 \<le> length c" "list_all (in_cls Digit) c"
    by (simp_all add: in_cls_funs Suc_le_eq)
  show "can_match summaryPattern behind s"
    unfolding summaryPattern_def s
    by (intro can_match_LitI can_match_CapI e) simp
qed

lemma can_match_NotAheadI:
  "\<not> can_match la behind s \<Longrightarrow> can_match rs behind s \<Longrightarrow> can_match (NotAhead la # rs) behind s"
  by simp

lemma can_match_NotAheadE:
  assumes "can_match (NotAhead la # rs) behind s"
  obtains "\<not> can_match la behind s" "can_match rs behind s"
  using assms by simp

lemma can_match_BolI:
  "behind = [] \<or> is_line_terminator (hd behind) \<Longrightarrow> can_match rs behind s
     \<Longrightarrow> can_match (Bol # rs) behind s"
  by simp

lemma can_match_BolE:
  assumes "can_match (Bol # rs) behind s"
  obtains "behind = [] \<or> is_line_terminator (hd behind)" "can_match rs behind s"
  using assms by simp

lemma known_after_apply_iff:
  "can_match known_after_apply behind t \<longleftrightarrow> placeholder_ahead t"
proof
  assume "can_match known_after_apply behind t"
  then show "placeholder_ahead t"
    unfolding known_after_apply_def placeholder_ahead_def
    by (elim can_match_RepE can_match_LitE) (simp only: in_cls_funs, blast)
next
  assume "placeholder_ahead t"
  then obtain ws r where t: "t = ws @ ''(known after apply)'' @ r"
    and "list_all is_space ws"
    unfolding placeholder_ahead_def by blast
  then have ws: "0 \<le> length ws" "list_all (in_cls Space) ws"
    by (simp_all add: in_cls_funs)
  show "can_match known_after_apply behind t"
    unfolding known_after_apply_def t
    by (intro can_match_RepI can_match_LitI ws) simp_all
qed

lemma addition_can_match:
  "can_match additionPattern behind s \<longleftrightarrow>
     (behind = [] \<or> is_line_terminator (hd behind)) \<and> addition_at s"
proof
  assume "can_match additionPattern behind s"
  then show "(behind = [] \<or> is_line_terminator (hd behind)) \<and> addition_at s"
    unfolding additionPattern_def addition_at_def
    by (elim can_match_BolE can_match_LitE can_match_RepE can_match_NotAheadE)
       (simp only: in_cls_funs one_le_length known_after_apply_iff, blast+)
next
  assume "(behind = [] \<or> is_line_terminator (hd behind)) \<and> addition_at s"
  then have bol: "behind = [] \<or> is_line_terminator (hd behind)" and "addition_at s"
    by simp_all
  then obtain ws1 ws2 name ws3 ws4 v after
    where s: "s = ws1 @ ''+'' @ ws2 @ name @ ws3 @ ''='' @ ws4 @ v @ after"
      and d: "ws1 \<noteq> []" "list_all is_space ws1" "ws2 \<noteq> []" "list_all is_space ws2"
             "name \<noteq> []" "list_all is_word name" "list_all is_space ws3"
             "list_all is_space ws4" "v \<noteq> []" "list_all is_dot v"
      and la: "\<not> placeholder_ahead (v @ after)"
    unfolding addition_at_def by blast
  from d have c: "1 \<le> length ws1" "list_all (in_cls Space) ws1"
             "1 \<le> length ws2" "list_all (in_cls Space) ws2"
             "1 \<le> length name" "list_all (in_cls Word) name"
             "0 \<le> length ws3" "list_all (in_cls Space) ws3"
             "0 \<le> length ws4" "list_all (in_cls Space) ws4"
             "1 \<le> length v" "list_all (in_cls Dot) v"
    by (simp_all add: in_cls_funs Suc_le_eq)
  have fin: "can_match [] b after" for b by simp
  show "can_match additionPattern behind s"
    unfolding additionPattern_def s
    by (intro can_match_BolI can_match_LitI can_match_RepI can_match_NotAheadI c bol fin)
       (simp only: known_after_apply_iff la not_False_eq_True)
qed

text \<open>
  The line \<open>+ status = (known after apply)\<close> is not an attribute addition when it holds the
  only \<open>+\<close> of the text: the cut of the text into the pieces of the pattern is then forced,
  piece by piece, and ends in front of the placeholder.
\<close>

lemma only_occurrence:
  assumes "c \<notin> set p" "c \<notin> set x" "p @ c # x = q @ c # t"
  shows "p = q \<and> x = t"
  using assms
proof (induction p arbitrary: q)
  case Nil
  then show ?case by (cases q) auto
next
  case (Cons a p)
  then show ?case by (cases q) auto
qed

lemma run_unique:
  assumes "list_all P u" "list_all P u'"
    and "t = [] \<or> \<not> P (hd t)" "t' = [] \<or> \<not> P (hd t')"
    and "u @ t = u' @ t'"
  shows "u = u' \<and> t = t'"
proof -
  have a: "takeWhile P (u @ t) = u"
    using assms(1,3) by (cases t) (simp_all add: list_all_iff takeWhile_append2 takeWhile_eq_all_conv[THEN iffD2])
  have b: "takeWhile P (u' @ t') = u'"
    using assms(2,4) by (cases t') (simp_all add: list_all_iff takeWhile_append2 takeWhile_eq_all_conv[THEN iffD2])
  from a b assms(5) have "u = u'" by simp
  with assms(5) show ?thesis by simp
qed

lemma word_not_space: "is_word c \<Longrightarrow> \<not> is_space c"
  by (auto simp: is_word_def is_digit_def is_space_def)

lemma only_occurrence':
  assumes "c \<notin> set p" "c \<notin> set x" "p @ [c] @ x = q @ [c] @ t"
  shows "x = t"
  using only_occurrence[of c p x q t] assms by simp

lemma run_unique':
  assumes "u @ t = u' @ t'"
    and "list_all P u" "t = [] \<or> \<not> P (hd t)"
    and "list_all P u'" "t' = [] \<or> \<not> P (hd t')"
  shows "t = t'"
  using run_unique[of P u u' t t'] assms by simp

lemma hd_word_tail:
  "list_all is_space ws3 \<Longrightarrow> \<not> is_word (hd (ws3 @ ''='' @ t))"
proof (cases ws3)
  case Nil
  then show ?thesis by (simp add: is_word_def is_digit_def)
next
  case (Cons a list)
  assume "list_all is_space ws3"
  with Cons have "is_space a" by simp
  with word_not_space[of a] Cons show ?thesis by auto
qed

lemma computed_status_pieces:
  assumes "addition_at (ws @ ''+'' @ '' '' @ ''status'' @ '' '' @ ''='' @ '' '' @ ''(known after apply)'' @ rest)"
    and "CHR ''+'' \<notin> set ws" "CHR ''+'' \<notin> set rest"
  shows False
proof -
  define X4 where "X4 = ''(known after apply)'' @ rest"
  define X3 where "X3 = ''='' @ '' '' @ X4"
  define X2 where "X2 = ''status'' @ '' '' @ X3"
  define X1 where "X1 = '' '' @ X2"
  from assms(1) obtain ws1 ws2 name ws3 ws4 v after
    where s: "ws @ ''+'' @ X1 = ws1 @ ''+'' @ ws2 @ name @ ws3 @ ''='' @ ws4 @ v @ after"
      and d: "ws1 \<noteq> []" "list_all is_space ws1" "ws2 \<noteq> []" "list_all is_space ws2"
             "name \<noteq> []" "list_all is_word name" "list_all is_space ws3"
             "list_all is_space ws4" "v \<noteq> []" "list_all is_dot v"
      and la: "\<not> placeholder_ahead (v @ after)"
    unfolding addition_at_def X1_def X2_def X3_def X4_def by blast
  have n: "CHR ''+'' \<notin> set X1"
    using assms(3) by (simp add: X1_def X2_def X3_def X4_def)
  have 1: "'' '' @ X2 = ws2 @ name @ ws3 @ ''='' @ ws4 @ v @ after"
    using only_occurrence'[OF assms(2) n s] by (simp only: X1_def)
  have hn: "is_word (hd name)"
    using d(5,6) by (cases name) simp_all
  have a2: "name @ ws3 @ ''='' @ ws4 @ v @ after = [] \<or> \<not> is_space (hd (name @ ws3 @ ''='' @ ws4 @ v @ after))"
    using d(5) word_not_space[OF hn] by simp
  have b2: "X2 = [] \<or> \<not> is_space (hd X2)"
    by (simp add: X2_def is_space_def)
  have c2: "list_all is_space '' ''"
    by (simp add: is_space_def)
  have 2: "name @ ws3 @ ''='' @ ws4 @ v @ after = ''status'' @ '' '' @ X3"
    using run_unique'[OF 1[symmetric] d(4) a2 c2 b2] by (simp only: X2_def)
  have a3: "ws3 @ ''='' @ ws4 @ v @ after = [] \<or> \<not> is_word (hd (ws3 @ ''='' @ ws4 @ v @ after))"
    using hd_word_tail[OF d(7)] by blast
  have b3: "'' '' @ X3 = [] \<or> \<not> is_word (hd ('' '' @ X3))"
    by (simp add: is_word_def is_digit_def)
  have c3: "list_all is_word ''status''"
    by (simp add: is_word_def)
  have 3: "ws3 @ ''='' @ ws4 @ v @ after = '' '' @ X3"
    using run_unique'[OF 2 d(6) a3 c3 b3] .
  have a4: "''='' @ ws4 @ v @ after = [] \<or> \<not> is_space (hd (''='' @ ws4 @ v @ after))"
    by (simp add: is_space_def)
  have b4: "X3 = [] \<or> \<not> is_space (hd X3)"
    by (simp add: X3_def is_space_def)
  have "''='' @ ws4 @ v @ after = X3"
    using run_unique'[OF 3 d(7) a4 c2 b4] .
  then have 4: "ws4 @ v @ after = '' '' @ X4"
    by (simp add: X3_def)
  have hx: "\<not> is_space (hd X4)"
    by (simp add: X4_def is_space_def)
  have "placeholder_ahead (v @ after)"
  proof (cases ws4)
    case Nil
    with 4 have "v @ after = '' '' @ ''(known after apply)'' @ rest" by (simp add: X4_def)
    with c2 show ?thesis unfolding placeholder_ahead_def by blast
  next
    case (Cons c ws4')
    with 4 have e: "ws4' @ v @ after = X4" by simp
    have "ws4' = []"
    proof (cases ws4')
      case Nil then show ?thesis .
    next
      case (Cons x xs)
      with e have "hd X4 = x" by auto
      moreover from d(8) \<open>ws4 = c # ws4'\<close> Cons have "is_space x" by simp
      ultimately show ?thesis using hx by simp
    qed
    with e have "v @ after = [] @ ''(known after apply)'' @ rest" by (simp add: X4_def)
    moreover have "list_all is_space []" by simp
    ultimately show ?thesis unfolding placeholder_ahead_def by blast
  qed
  with la show False by simp
qed

lemma computed_status_only:
  assumes "CHR ''+'' \<notin> set before" "CHR ''+'' \<notin> set rest"
  shows "\<not> real_addition_in (before @ ''+ status = (known after apply)'' @ rest)"
proof
  assume "real_addition_in (before @ ''+ status = (known after apply)'' @ rest)"
  then obtain b s where p: "before @ ''+ status = (known after apply)'' @ rest = b @ s"
    and a: "addition_at s"
    unfolding real_addition_in_def by blast
  from a obtain ws1 T where s: "s = ws1 @ ''+'' @ T"
    unfolding addition_at_def by blast
  define X where "X = '' status = (known after apply)'' @ rest"
  have e: "before @ CHR ''+'' # X = (b @ ws1) @ CHR ''+'' # T"
    using p s by (simp add: X_def)
  have nx: "CHR ''+'' \<notin> set X"
    using assms(2) by (simp add: X_def)
  from only_occurrence[OF assms(1) nx e] have bw: "before = b @ ws1" and xt: "X = T"
    by simp_all
  from assms(1) bw have nw: "CHR ''+'' \<notin> set ws1" by simp
  have "s = ws1 @ ''+'' @ '' '' @ ''status'' @ '' '' @ ''='' @ '' '' @ ''(known after apply)'' @ rest"
    using s xt by (simp add: X_def)
  with a computed_status_pieces[OF _ nw assms(2)] show False by simp
qed

lemma summaryMatch_iff:
  "regex_exec summaryPattern [] plan \<noteq> None \<longleftrightarrow> summary_in plan"
  using regex_exec_iff[of summaryPattern "[]" plan]
  by (simp add: summary_can_match summary_in_def)

lemma collapse_plan_result:
  "shouldCollapsePlan collapse_plan =
     \<lparr>shouldCollapse = True, hasOnlyUpdates = JBool True, changedAttrs = [''content_sha256''],
      hasRealAdditions = False, hasRealDeletions = False, hasResourceChanges = False\<rparr>"
  by code_simp

lemma created_plan_result:
  "shouldCollapsePlan created_plan =
     \<lparr>shouldCollapse = False, hasOnlyUpdates = JBool True, changedAttrs = [''content''],
      hasRealAdditions = False, hasRealDeletions = False, hasResourceChanges = True\<rparr>"
  by code_simp

lemma block_plan_result:
  "shouldCollapsePlan block_plan =
     \<lparr>shouldCollapse = False, hasOnlyUpdates = JNull, changedAttrs = [],
      hasRealAdditions = True, hasRealDeletions = False, hasResourceChanges = False\<rparr>"
  by code_simp

lemma empty_plan_result:
  "shouldCollapsePlan [] =
     \<lparr>shouldCollapse = False, hasOnlyUpdates = JNull, changedAttrs = [],
      hasRealAdditions = False, hasRealDeletions = False, hasResourceChanges = False\<rparr>"
  by code_simp

section \<open>Lemmas on the coverage gate\<close>

text \<open>The owner list has no duplicates, so its length is the size of the owner set.\<close>

lemma set_add_distinct: "distinct xs \<Longrightarrow> distinct (set_add x xs)"
  by (simp add: set_add_def)

lemma fold_set_add_distinct: "distinct xs \<Longrightarrow> distinct (fold set_add ys xs)"
  by (induction ys arbitrary: xs) (simp_all add: set_add_distinct)

lemma codeowners_line_distinct: "distinct xs \<Longrightarrow> distinct (codeowners_line xs line)"
  by (simp add: codeowners_line_def fold_set_add_distinct)

lemma parseCodeowners_distinct:
  assumes "parseCodeowners file = Some owners"
  shows "distinct owners"
proof -
  have "distinct (fold (\<lambda>line owners. codeowners_line owners line) ls xs)" if "distinct xs" for ls xs
    using that by (induction ls arbitrary: xs) (simp_all add: codeowners_line_distinct)
  with assms show ?thesis
    by (auto simp: parseCodeowners_def split: option.splits)
qed

lemma getCoverageData_valid:
  assumes "get_field data ''total_percent_covered'' = Some (JNumber p)"
    and "get_field data ''total_num_lines'' = Some (JNumber n)"
  shows "getCoverageData (Some data) =
           \<lparr>percent = p, totalLines = n, parseError = False,
            crashFallback = JBool (get_field data ''crash_fallback'' = Some (JBool True))\<rparr>"
proof -
  obtain c where c: "get_field data ''crash_fallback'' = Some c"
    using assms(1) by (cases data) auto
  show ?thesis
    using assms c by (simp add: getCoverageData_def)
qed

lemma sole_dev_approval:
  assumes "\<not> no_pull_number ctx"
    and "listReviews w = Inr reviews"
    and "parseCodeowners (codeowners_file w) = Some [owner]"
    and "pr_author ctx = Some author"
    and "owner = author \<or> owner = strip_bot author"
  shows "checkCodeownersApproval w ctx = ([ListReviews, ReadCodeowners], Inr True)"
  using assms
  by (auto simp: checkCodeownersApproval_def isSoleDev_def prAuthorBase_def)

lemma meaningfulStates_claimed:
  "st \<in> set meaningfulStates \<longleftrightarrow> claimed_meaningful st"
  by (auto simp: meaningfulStates_def claimed_meaningful_def)

lemma latest_meaningful_Cons:
  "latest_meaningful_state u (r # rs) =
     (case latest_meaningful_state u rs of
        Some st \<Rightarrow> Some st
      | None \<Rightarrow> if user r = Some u \<and> claimed_meaningful (state r) then Some (state r) else None)"
  by (auto simp: latest_meaningful_state_def split: list.splits)

lemma validReviews_users:
  assumes "list_all (\<lambda>r. user r \<noteq> None) reviews"
  shows "validReviews reviews a = Inr (filter (\<lambda>r. user r \<noteq> a) reviews)"
  using assms by (induction reviews) auto

lemma validReviews_null_user:
  assumes "\<not> list_all (\<lambda>r. user r \<noteq> None) reviews"
  shows "validReviews reviews a = Inl TypeError"
  using assms by (induction reviews) (auto split: option.splits sum.splits)

lemma latest_meaningful_filter:
  "latest_meaningful_state u (filter (\<lambda>r. user r \<noteq> a) reviews) =
     (if Some u = a then None else latest_meaningful_state u reviews)"
proof -
  have "filter (\<lambda>r. user r = Some u \<and> claimed_meaningful (state r))
               (filter (\<lambda>r. user r \<noteq> a) reviews)
        = (if Some u = a then []
           else filter (\<lambda>r. user r = Some u \<and> claimed_meaningful (state r)) reviews)"
    by (induction reviews) auto
  then show ?thesis by (simp add: latest_meaningful_state_def)
qed

lemma latestReviews_loop_users:
  assumes "list_all (\<lambda>r. user r \<noteq> None) rs" "distinct (map fst m)"
  shows "\<exists>latest. latestReviews_loop rs m = Inr latest \<and> distinct (map fst latest)
           \<and> (\<forall>u. map_of latest u =
                 (case latest_meaningful_state u rs of None \<Rightarrow> map_of m u | Some st \<Rightarrow> Some st))"
  using assms
proof (induction rs arbitrary: m)
  case Nil
  then show ?case by (simp add: latest_meaningful_state_def)
next
  case (Cons r rs)
  from Cons.prems(1) obtain l where l: "user r = Some l" and rest: "list_all (\<lambda>r. user r \<noteq> None) rs"
    by auto
  show ?case
  proof (cases "claimed_meaningful (state r)")
    case True
    have d: "distinct (map fst (AList.update l (state r) m))"
      using Cons.prems(2) by (simp add: distinct_update)
    from Cons.IH[OF rest d] obtain latest
      where "latestReviews_loop rs (AList.update l (state r) m) = Inr latest"
        and "distinct (map fst latest)"
        and "\<forall>u. map_of latest u =
               (case latest_meaningful_state u rs of
                  None \<Rightarrow> map_of (AList.update l (state r) m) u | Some st \<Rightarrow> Some st)"
      by blast
    with True l show ?thesis
      by (auto simp: meaningfulStates_claimed latest_meaningful_Cons update_conv'
               split: option.splits)
  next
    case False
    from Cons.IH[OF rest Cons.prems(2)] obtain latest
      where "latestReviews_loop rs m = Inr latest"
        and "distinct (map fst latest)"
        and "\<forall>u. map_of latest u =
               (case latest_meaningful_state u rs of None \<Rightarrow> map_of m u | Some st \<Rightarrow> Some st)"
      by blast
    with False l show ?thesis
      by (auto simp: meaningfulStates_claimed latest_meaningful_Cons split: option.splits)
  qed
qed

lemma approved_by_owner_iff:
  "approved_by_owner es owners \<longleftrightarrow> (\<exists>u \<in> set owners. (u, ''APPROVED'') \<in> set es)"
  by (induction es owners rule: approved_by_owner.induct) auto

text \<open>
  On a review list in which every review has a user, the filter and the loop return, and the
  final loop decides as the approval rule says.
\<close>

lemma approved_latest:
  assumes "list_all (\<lambda>r. user r \<noteq> None) reviews"
  shows "\<exists>kept latest. validReviews reviews a = Inr kept \<and> latestReviews kept = Inr latest
           \<and> approved_by_owner latest owners = claimed_approval owners a reviews"
proof -
  let ?kept = "filter (\<lambda>r. user r \<noteq> a) reviews"
  have k: "validReviews reviews a = Inr ?kept"
    by (rule validReviews_users[OF assms])
  have "list_all (\<lambda>r. user r \<noteq> None) ?kept"
    using assms by (simp add: list_all_iff)
  from latestReviews_loop_users[OF this, of "[]"] obtain latest
    where l: "latestReviews ?kept = Inr latest"
      and d: "distinct (map fst latest)"
      and raw: "\<forall>u. map_of latest u =
                 (case latest_meaningful_state u ?kept of
                    None \<Rightarrow> map_of [] u | Some st \<Rightarrow> Some st)"
    unfolding latestReviews_def by auto
  have m: "map_of latest u = latest_meaningful_state u ?kept" for u
    using raw by (simp split: option.splits)
  have "(u, ''APPROVED'') \<in> set latest \<longleftrightarrow>
        (Some u \<noteq> a \<and> latest_meaningful_state u reviews = Some ''APPROVED'')" for u
  proof -
    have "(u, ''APPROVED'') \<in> set latest \<longleftrightarrow> map_of latest u = Some ''APPROVED''"
      using map_of_eq_Some_iff[OF d] by simp
    also have "\<dots> \<longleftrightarrow> (Some u \<noteq> a \<and> latest_meaningful_state u reviews = Some ''APPROVED'')"
      by (simp add: m latest_meaningful_filter)
    finally show ?thesis .
  qed
  then have "approved_by_owner latest owners = claimed_approval owners a reviews"
    by (simp add: approved_by_owner_iff claimed_approval_def)
  with k l show ?thesis by blast
qed

lemma approval_by_latest_review:
  assumes "\<not> no_pull_number ctx"
    and "listReviews w = Inr reviews"
    and "parseCodeowners (codeowners_file w) = Some owners"
    and "2 \<le> length owners"
    and "list_all (\<lambda>r. user r \<noteq> None) reviews"
  shows "checkCodeownersApproval w ctx =
           ([ListReviews, ReadCodeowners], Inr (claimed_approval owners (pr_author ctx) reviews))"
proof -
  from approved_latest[OF assms(5), of "pr_author ctx" owners] obtain kept latest
    where "validReviews reviews (pr_author ctx) = Inr kept" "latestReviews kept = Inr latest"
      "approved_by_owner latest owners = claimed_approval owners (pr_author ctx) reviews"
    by blast
  moreover from assms(4) have "owners \<noteq> []" "length owners \<noteq> 1"
    by auto
  ultimately show ?thesis
    using assms(1-3) by (simp add: checkCodeownersApproval_def isSoleDev_def)
qed

text \<open>
  With two or more owners, a review list that holds a review without a user rejects the
  call, whatever the other reviews say.
\<close>

lemma approval_null_user_rejects:
  assumes "\<not> no_pull_number ctx"
    and "listReviews w = Inr reviews"
    and "parseCodeowners (codeowners_file w) = Some owners"
    and "2 \<le> length owners"
    and "\<not> list_all (\<lambda>r. user r \<noteq> None) reviews"
  shows "checkCodeownersApproval w ctx = ([ListReviews, ReadCodeowners], Inl TypeError)"
proof -
  from assms(4) have "owners \<noteq> []" "length owners \<noteq> 1"
    by auto
  with assms(1-3) validReviews_null_user[OF assms(5), of "pr_author ctx"] show ?thesis
    by (simp add: checkCodeownersApproval_def isSoleDev_def)
qed

lemma team_owners: "parseCodeowners (codeowners_file team_world) = Some [''alice'', ''bob'']"
  unfolding team_world_def by code_simp

lemma solo_owners: "parseCodeowners (codeowners_file solo_world) = Some [''dave'']"
  unfolding solo_world_def by code_simp

lemma team_has_number: "\<not> no_pull_number team_ctx"
  by (simp add: no_pull_number_def pull_number_def team_ctx_def)

lemma solo_has_number: "\<not> no_pull_number solo_ctx"
  by (simp add: no_pull_number_def pull_number_def solo_ctx_def)

section \<open>Claims on the plan classifier\<close>

text \<open>
  C4: for every plan text, \<open>shouldCollapse\<close> is true if and only if \<open>hasOnlyUpdates\<close> holds,
  \<open>hasRealAdditions\<close> and \<open>hasRealDeletions\<close> are false, \<open>changedAttrs\<close> is not empty, every
  name in it is \<open>content_sha256\<close> or \<open>content\<close>, and the text contains none of the markers
  \<open>will be created\<close>, \<open>will be destroyed\<close>, \<open>must be replaced\<close>; so a plan that contains
  \<open>will be created\<close> is never collapsed, whatever the other fields.
\<close>

theorem C4_collapse_iff:
  "(shouldCollapse (shouldCollapsePlan plan) \<longleftrightarrow>
      truthy (hasOnlyUpdates (shouldCollapsePlan plan))
      \<and> \<not> hasRealAdditions (shouldCollapsePlan plan)
      \<and> \<not> hasRealDeletions (shouldCollapsePlan plan)
      \<and> changedAttrs (shouldCollapsePlan plan) \<noteq> []
      \<and> set (changedAttrs (shouldCollapsePlan plan)) \<subseteq> {''content_sha256'', ''content''}
      \<and> \<not> (\<exists>u v. plan = u @ ''will be created'' @ v)
      \<and> \<not> (\<exists>u v. plan = u @ ''will be destroyed'' @ v)
      \<and> \<not> (\<exists>u v. plan = u @ ''must be replaced'' @ v))
   \<and> ((\<exists>u v. plan = u @ ''will be created'' @ v) \<longrightarrow> \<not> shouldCollapse (shouldCollapsePlan plan))"
proof -
  let ?r = "shouldCollapsePlan plan"
  have i: "str_includes plan t \<longleftrightarrow> (\<exists>u v. plan = u @ t @ v)" for t
    by (simp add: str_includes_def sublist_def)
  have a: "list_all (\<lambda>attr. attr \<in> set codeAttrs) xs \<longleftrightarrow> set xs \<subseteq> {''content_sha256'', ''content''}"
    for xs
    unfolding codeAttrs_def list_all_iff by auto
  have c: "shouldCollapse ?r \<longleftrightarrow>
             truthy (hasOnlyUpdates ?r) \<and> \<not> hasRealAdditions ?r \<and> \<not> hasRealDeletions ?r
             \<and> changedAttrs ?r \<noteq> []
             \<and> list_all (\<lambda>attr. attr \<in> set codeAttrs) (changedAttrs ?r)
             \<and> \<not> hasResourceChanges ?r"
    by (simp add: shouldCollapsePlan_def Let_def js_and_def)
  have h: "hasResourceChanges ?r \<longleftrightarrow>
             str_includes plan ''will be created'' \<or> str_includes plan ''will be destroyed''
             \<or> str_includes plan ''must be replaced''"
    by (simp add: shouldCollapsePlan_def Let_def)
  show ?thesis
    unfolding c h i a by blast
qed

theorem C4_collapse_iff_witness:
  "shouldCollapse (shouldCollapsePlan collapse_plan)
   \<and> \<not> (\<exists>u v. collapse_plan = u @ ''will be created'' @ v)
   \<and> (\<exists>u v. created_plan = u @ ''will be created'' @ v)
   \<and> \<not> shouldCollapse (shouldCollapsePlan created_plan)"
proof -
  have 1: "shouldCollapse (shouldCollapsePlan collapse_plan)"
    by (simp add: collapse_plan_result)
  have "created_plan = ''  # x '' @ ''will be created''
          @ text_of [[], ''  ~ content = \"a\" -> \"b\"'',
                     ''Plan: 0 to add, 1 to change, 0 to destroy.'']"
    by (simp add: created_plan_def text_of_def)
  then have 2: "\<exists>u v. created_plan = u @ ''will be created'' @ v"
    by blast
  from C4_collapse_iff[of collapse_plan] 1
  have 3: "\<not> (\<exists>u v. collapse_plan = u @ ''will be created'' @ v)"
    by blast
  from C4_collapse_iff[of created_plan] 2
  have 4: "\<not> shouldCollapse (shouldCollapsePlan created_plan)"
    by blast
  from 1 2 3 4 show ?thesis by blast
qed

text \<open>
  Against C8 as worded: the plan whose only line is \<open>+ tags = {\<close> (indented) opens a
  multi-line block, so no line of it is a single-line attribute addition, yet
  \<open>hasRealAdditions\<close> is true.
\<close>

theorem C8_counterexample:
  "hasRealAdditions (shouldCollapsePlan block_plan) \<and> \<not> claimed_hasRealAdditions block_plan"
proof -
  have "block_opener block_plan"
    by (simp add: block_opener_def block_plan_def is_space_def)
  then have "\<not> claimed_hasRealAdditions block_plan"
    by (simp add: claimed_hasRealAdditions_def block_plan_def)
  then show ?thesis
    by (simp add: block_plan_result)
qed

text \<open>
  C8, amended: for every plan text, \<open>hasRealAdditions\<close> is true exactly when an attribute
  addition starts at the start of some line: whitespace, \<open>+\<close>, whitespace, a name, optional
  whitespace, \<open>=\<close>, optional whitespace, and a value of at least one character on one line
  that is not the placeholder \<open>(known after apply)\<close>. A value that opens a multi-line block
  counts. In particular a plan whose only addition line is \<open>+ status = (known after apply)\<close>,
  that is, a text with this line and no other \<open>+\<close>, has \<open>hasRealAdditions\<close> false.
\<close>

theorem C8_real_additions:
  "(hasRealAdditions (shouldCollapsePlan plan) \<longleftrightarrow> real_addition_in plan)
   \<and> (CHR ''+'' \<notin> set before \<and> CHR ''+'' \<notin> set rest \<longrightarrow>
        \<not> hasRealAdditions
            (shouldCollapsePlan (before @ ''+ status = (known after apply)'' @ rest)))"
proof -
  have iff: "hasRealAdditions (shouldCollapsePlan p) \<longleftrightarrow> real_addition_in p" for p
  proof -
    have "hasRealAdditions (shouldCollapsePlan p) \<longleftrightarrow> regex_exec additionPattern [] p \<noteq> None"
      by (simp add: shouldCollapsePlan_def Let_def)
    also have "\<dots> \<longleftrightarrow> (\<exists>u t. p = u @ t \<and> can_match additionPattern (rev u @ []) t)"
      by (rule regex_exec_iff)
    also have "\<dots> \<longleftrightarrow> real_addition_in p"
      by (simp add: addition_can_match real_addition_in_def at_line_start_def hd_rev)
    finally show ?thesis .
  qed
  show ?thesis
    using iff[of plan] iff[of "before @ ''+ status = (known after apply)'' @ rest"]
      computed_status_only[of before rest]
    by blast
qed

theorem C8_real_additions_witness:
  "\<not> hasRealAdditions (shouldCollapsePlan collapse_plan) \<and> \<not> real_addition_in collapse_plan
   \<and> hasRealAdditions (shouldCollapsePlan block_plan) \<and> real_addition_in block_plan"
proof -
  define before where "before = text_of [''  ~ content_sha256 = \"abc\" -> \"def\"''] @ ''  ''"
  define rest where "rest = [CHR 0x0A] @ text_of [''Plan: 0 to add, 1 to change, 0 to destroy.'']"
  have c: "collapse_plan = before @ ''+ status = (known after apply)'' @ rest"
    by (simp add: collapse_plan_def text_of_def before_def rest_def)
  have n: "CHR ''+'' \<notin> set before" "CHR ''+'' \<notin> set rest"
    by (simp_all add: text_of_def before_def rest_def)
  have 0: "\<not> hasRealAdditions
               (shouldCollapsePlan (before @ ''+ status = (known after apply)'' @ rest))"
    using C8_real_additions[of collapse_plan before rest] n by blast
  have 1: "\<not> hasRealAdditions (shouldCollapsePlan collapse_plan)"
    unfolding c by (rule 0)
  have 2: "\<not> real_addition_in collapse_plan"
    using C8_real_additions[of collapse_plan before rest] 1 by blast
  have 3: "hasRealAdditions (shouldCollapsePlan block_plan)"
    by (simp add: block_plan_result)
  have 4: "real_addition_in block_plan"
    using C8_real_additions[of block_plan before rest] 3 by blast
  from 1 2 3 4 show ?thesis by blast
qed

text \<open>
  Against C9 as worded: on the empty plan text \<open>hasOnlyUpdates\<close> is \<open>null\<close>, the value of
  \<open>summaryMatch && ...\<close> when there is no match, and not the boolean \<open>false\<close>.
\<close>

theorem C9_counterexample:
  "hasOnlyUpdates (shouldCollapsePlan []) = JNull
   \<and> \<not> is_boolean (hasOnlyUpdates (shouldCollapsePlan []))"
  by (simp add: empty_plan_result)

text \<open>
  C9, amended: for every plan text in which no summary
  \<open>Plan: <add> to add, <change> to change, <destroy> to destroy\<close> occurs, the empty text among
  them, \<open>shouldCollapsePlan\<close> returns \<open>hasOnlyUpdates == null\<close>, which is falsy, and
  \<open>shouldCollapse == false\<close>.
\<close>

theorem C9_no_summary:
  assumes "\<not> summary_in plan"
  shows "hasOnlyUpdates (shouldCollapsePlan plan) = JNull
         \<and> \<not> truthy (hasOnlyUpdates (shouldCollapsePlan plan))
         \<and> \<not> shouldCollapse (shouldCollapsePlan plan)"
proof -
  from assms have "regex_exec summaryPattern [] plan = None"
    using summaryMatch_iff[of plan] by blast
  then show ?thesis
    by (simp add: shouldCollapsePlan_def Let_def js_and_def)
qed

theorem C9_no_summary_witness:
  "\<not> summary_in []
   \<and> hasOnlyUpdates (shouldCollapsePlan []) = JNull
   \<and> \<not> truthy (hasOnlyUpdates (shouldCollapsePlan []))
   \<and> \<not> shouldCollapse (shouldCollapsePlan [])"
proof -
  have n: "\<not> summary_in []"
    by (simp add: summary_in_def summary_at_def)
  from C9_no_summary[OF n] n show ?thesis by simp
qed

section \<open>Claims on the coverage gate\<close>

text \<open>
  Against C1 as worded: on the report whose content is exactly \<open>{total_num_lines: 0}\<close> the
  field \<open>total_percent_covered\<close> is not a number, the report counts as invalid, and the gate
  fails with coverage NaN.
\<close>

theorem C1_counterexample:
  "analyzeCoverageResults no_format
     \<lparr>listReviews = Inr [], codeowners_file = None,
      report_json = Some (JObject [(''total_num_lines'', JNumber (Num 0))])\<rparr>
     (Num 80) push_ctx
   = ([ReadReport],
      Inr \<lparr>shouldFail = JBool True, coveragePercent = JNumber NaN,
           reason = JString ''Coverage report missing or invalid JSON'',
           overrideApplied = JUndefined, telemetryEvents = []\<rparr>)"
  by (simp add: analyzeCoverageResults_def getCoverageData_def parse_failed_def)

text \<open>
  C1, amended: for every report in which \<open>total_percent_covered\<close> is a number,
  \<open>total_num_lines\<close> is 0 and \<open>crash_fallback\<close> is not \<open>true\<close>, for every threshold, context and
  review state, \<open>analyzeCoverageResults\<close> returns \<open>shouldFail == false\<close> and
  \<open>coveragePercent == 100\<close> (with the doc-only reason, no override and no telemetry).
\<close>

theorem C1_zero_lines_pass:
  assumes "report_json w = Some data"
    and "get_field data ''total_percent_covered'' = Some (JNumber p)"
    and "get_field data ''total_num_lines'' = Some (JNumber (Num 0))"
    and "get_field data ''crash_fallback'' \<noteq> Some (JBool True)"
  shows "analyzeCoverageResults str w thr ctx
         = ([ReadReport],
            Inr \<lparr>shouldFail = JBool False, coveragePercent = JNumber (Num 100),
                 reason = JString ''No executable lines to cover (doc/config-only PR)'',
                 overrideApplied = JUndefined, telemetryEvents = []\<rparr>)"
  using assms(1,4) getCoverageData_valid[OF assms(2,3)]
  by (simp add: analyzeCoverageResults_def)

theorem C1_zero_lines_pass_witness:
  "analyzeCoverageResults no_format
     \<lparr>listReviews = Inr [], codeowners_file = None,
      report_json = Some (JObject [(''total_percent_covered'', JNumber (Num 100)),
                                   (''total_num_lines'', JNumber (Num 0))])\<rparr>
     (Num 80) push_ctx
   = ([ReadReport],
      Inr \<lparr>shouldFail = JBool False, coveragePercent = JNumber (Num 100),
           reason = JString ''No executable lines to cover (doc/config-only PR)'',
           overrideApplied = JUndefined, telemetryEvents = []\<rparr>)"
  by (rule C1_zero_lines_pass[where p = "Num 100"
        and data = "JObject [(''total_percent_covered'', JNumber (Num 100)),
                             (''total_num_lines'', JNumber (Num 0))]"]) simp_all

text \<open>
  C2: on the CODEOWNERS content \<open>* @org/team\<close>, whose only entry is a team reference,
  \<open>parseCodeowners\<close> returns the owner set \<open>{org}\<close>: the pattern stops at the slash and the
  part before it is added as an owner, where the claim has the entry contribute nothing.
\<close>

theorem C2_team_entry_adds_org:
  "parseCodeowners (Some ''* @org/team'') = Some [''org'']"
  by code_simp

text \<open>
  C3: for every report with both numeric fields whose \<open>crash_fallback\<close> is \<open>true\<close>, whatever
  the labels, the threshold, the reviews and the CODEOWNERS file, \<open>analyzeCoverageResults\<close>
  returns \<open>shouldFail == true\<close> with no override applied, having read nothing but the report.
\<close>

theorem C3_crash_always_fails:
  assumes "report_json w = Some data"
    and "get_field data ''total_percent_covered'' = Some (JNumber p)"
    and "get_field data ''total_num_lines'' = Some (JNumber n)"
    and "get_field data ''crash_fallback'' = Some (JBool True)"
  shows "\<exists>d. analyzeCoverageResults str w thr ctx = ([ReadReport], Inr d)
             \<and> shouldFail d = JBool True \<and> overrideApplied d = JUndefined"
  using assms(1,4) getCoverageData_valid[OF assms(2,3)]
  by (simp add: analyzeCoverageResults_def)

theorem C3_crash_always_fails_witness:
  "\<exists>d. analyzeCoverageResults no_format crash_world (Num 0) team_ctx = ([ReadReport], Inr d)
       \<and> shouldFail d = JBool True \<and> overrideApplied d = JUndefined"
  by (rule C3_crash_always_fails[where p = "Num 100" and n = "Num 0"
        and data = "JObject [(''total_percent_covered'', JNumber (Num 100)),
                             (''total_num_lines'', JNumber (Num 0)),
                             (''crash_fallback'', JBool True)]"])
     (simp_all add: crash_world_def)

text \<open>
  Against C5 as worded: with coverage 90 on 10 lines and threshold 80 the gate passes and the
  decision has no \<open>reason\<close> property, so \<open>reason\<close> reads as \<open>undefined\<close>, not as a string.
\<close>

theorem C5_counterexample:
  "analyzeCoverageResults no_format
     \<lparr>listReviews = Inr [], codeowners_file = None,
      report_json = Some (JObject [(''total_percent_covered'', JNumber (Num 90)),
                                   (''total_num_lines'', JNumber (Num 10))])\<rparr>
     (Num 80) push_ctx
   = ([ReadReport],
      Inr \<lparr>shouldFail = JBool False, coveragePercent = JNumber (Num 90),
           reason = JUndefined, overrideApplied = JUndefined, telemetryEvents = []\<rparr>)
   \<and> \<not> is_string JUndefined"
  by (simp add: analyzeCoverageResults_def getCoverageData_def)

text \<open>
  C5, amended: every decision that \<open>analyzeCoverageResults\<close> returns has \<open>shouldFail\<close> set to a
  boolean; its \<open>reason\<close> is a string on every branch but the pass on coverage alone (valid
  report, no crash, some executable lines, coverage not below the threshold), where the
  decision has no \<open>reason\<close>.
\<close>

theorem C5_shouldFail_boolean:
  assumes "analyzeCoverageResults str w thr ctx = (t, Inr d)"
  shows "is_boolean (shouldFail d)
         \<and> (if plain_pass w thr then reason d = JUndefined else is_string (reason d))"
  using assms
  by (auto simp: analyzeCoverageResults_def plain_pass_def Let_def
           split: if_splits prod.splits sum.splits)

theorem C5_shouldFail_boolean_witness:
  "analyzeCoverageResults no_format missing_world (Num 80) push_ctx
     = ([ReadReport], Inr invalid_decision)
   \<and> is_boolean (shouldFail invalid_decision)
   \<and> (if plain_pass missing_world (Num 80) then reason invalid_decision = JUndefined
       else is_string (reason invalid_decision))"
proof -
  have e: "analyzeCoverageResults no_format missing_world (Num 80) push_ctx
             = ([ReadReport], Inr invalid_decision)"
    by (simp add: analyzeCoverageResults_def getCoverageData_def parse_failed_def
                  missing_world_def invalid_decision_def)
  from C5_shouldFail_boolean[OF e] e show ?thesis by simp
qed

text \<open>
  C6: on a fetched review list that holds a review whose user is \<open>null\<close>,
  \<open>checkCodeownersApproval\<close> does not return at all. With the owners alice and bob, the author
  carol, an \<open>APPROVED\<close> review by alice and a comment by a deleted account, the approval rule
  of the claim grants approval, and the call is rejected with the TypeError of
  \<open>r.user.login\<close> in the filter. (On review lists in which every review has a user the call
  returns what the rule says: lemma \<open>approval_by_latest_review\<close>.)
\<close>

theorem C6_null_user_review_rejects:
  "checkCodeownersApproval ghost_world team_ctx = ([ListReviews, ReadCodeowners], Inl TypeError)
   \<and> claimed_approval [''alice'', ''bob''] (pr_author team_ctx) ghost_reviews"
proof -
  have o: "parseCodeowners (codeowners_file ghost_world) = Some [''alice'', ''bob'']"
    unfolding ghost_world_def by code_simp
  have l: "listReviews ghost_world = Inr ghost_reviews"
    by (simp add: ghost_world_def)
  have n: "\<not> list_all (\<lambda>r. user r \<noteq> None) ghost_reviews"
    by (simp add: ghost_reviews_def)
  have a: "latest_meaningful_state ''alice'' ghost_reviews = Some ''APPROVED''"
    by (simp add: latest_meaningful_state_def claimed_meaningful_def ghost_reviews_def)
  have b: "Some ''alice'' \<noteq> pr_author team_ctx"
    by (simp add: pr_author_def team_ctx_def)
  from a b have "claimed_approval [''alice'', ''bob''] (pr_author team_ctx) ghost_reviews"
    by (simp add: claimed_approval_def)
  with approval_null_user_rejects[OF team_has_number l o _ n] show ?thesis by simp
qed

text \<open>
  C7: in a pull request event whose reviews were fetched, when the parsed owner set has
  exactly one member and that member is the author, or the author without a trailing
  \<open>-bot\<close>, \<open>checkCodeownersApproval\<close> returns true whatever the review list; and then a valid
  report with executable lines, no crash and coverage below the threshold, on a pull request
  with the override label, gives \<open>shouldFail == false\<close> and \<open>overrideApplied == true\<close>.
\<close>

theorem C7_sole_codeowner:
  assumes "\<not> no_pull_number ctx"
    and "listReviews w = Inr reviews"
    and "parseCodeowners (codeowners_file w) = Some [owner]"
    and "pr_author ctx = Some author"
    and "owner = author \<or> owner = strip_bot author"
  shows "checkCodeownersApproval w ctx = ([ListReviews, ReadCodeowners], Inr True)
         \<and> (report_json w = Some data
              \<and> get_field data ''total_percent_covered'' = Some (JNumber p)
              \<and> get_field data ''total_num_lines'' = Some (JNumber n)
              \<and> get_field data ''crash_fallback'' \<noteq> Some (JBool True)
              \<and> n \<noteq> Num 0 \<and> jslt p thr \<and> hasOverrideLabel ctx
              \<longrightarrow> (\<exists>t d. analyzeCoverageResults str w thr ctx = (t, Inr d)
                        \<and> shouldFail d = JBool False \<and> overrideApplied d = JBool True))"
proof (intro conjI impI)
  show a: "checkCodeownersApproval w ctx = ([ListReviews, ReadCodeowners], Inr True)"
    by (rule sole_dev_approval[OF assms])
  assume h: "report_json w = Some data
              \<and> get_field data ''total_percent_covered'' = Some (JNumber p)
              \<and> get_field data ''total_num_lines'' = Some (JNumber n)
              \<and> get_field data ''crash_fallback'' \<noteq> Some (JBool True)
              \<and> n \<noteq> Num 0 \<and> jslt p thr \<and> hasOverrideLabel ctx"
  then have cd: "getCoverageData (report_json w) =
           \<lparr>percent = p, totalLines = n, parseError = False, crashFallback = JBool False\<rparr>"
    using getCoverageData_valid[of data p n] by simp
  show "\<exists>t d. analyzeCoverageResults str w thr ctx = (t, Inr d)
                        \<and> shouldFail d = JBool False \<and> overrideApplied d = JBool True"
    using h a cd by (simp add: analyzeCoverageResults_def)
qed

theorem C7_sole_codeowner_witness:
  "checkCodeownersApproval solo_world solo_ctx = ([ListReviews, ReadCodeowners], Inr True)
   \<and> (\<exists>t d. analyzeCoverageResults no_format solo_world (Num 80) solo_ctx = (t, Inr d)
            \<and> shouldFail d = JBool False \<and> overrideApplied d = JBool True)"
proof -
  have l: "listReviews solo_world = Inr []"
    by (simp add: solo_world_def)
  have a: "pr_author solo_ctx = Some ''dave-bot''"
    by (simp add: pr_author_def solo_ctx_def)
  have s: "''dave'' = ''dave-bot'' \<or> ''dave'' = strip_bot ''dave-bot''"
    by (simp add: strip_bot_def suffix_def)
  have r: "report_json solo_world = Some low_report
           \<and> get_field low_report ''total_percent_covered'' = Some (JNumber (Num 70))
           \<and> get_field low_report ''total_num_lines'' = Some (JNumber (Num 10))
           \<and> get_field low_report ''crash_fallback'' \<noteq> Some (JBool True)
           \<and> Num 10 \<noteq> Num 0 \<and> jslt (Num 70) (Num 80) \<and> hasOverrideLabel solo_ctx"
    by (simp add: solo_world_def low_report_def hasOverrideLabel_def solo_ctx_def)
  show ?thesis
    using C7_sole_codeowner[OF solo_has_number l solo_owners a s,
            of low_report "Num 70" "Num 10" "Num 80" no_format] r
    by blast
qed

text \<open>
  C10: when the payload has no pull request number, \<open>checkCodeownersApproval\<close> returns false
  at once, having neither fetched the reviews nor read CODEOWNERS; and the gate then returns
  a decision without an applied override, again without these two reads.
\<close>

theorem C10_no_pull_number:
  assumes "no_pull_number ctx"
  shows "checkCodeownersApproval w ctx = ([], Inr False)
         \<and> (\<exists>t d. analyzeCoverageResults str w thr ctx = (t, Inr d)
                   \<and> overrideApplied d = JUndefined
                   \<and> ListReviews \<notin> set t \<and> ReadCodeowners \<notin> set t)"
  using assms
  by (simp add: checkCodeownersApproval_def analyzeCoverageResults_def Let_def)

theorem C10_no_pull_number_witness:
  "no_pull_number push_ctx
   \<and> checkCodeownersApproval team_world push_ctx = ([], Inr False)
   \<and> (\<exists>t d. analyzeCoverageResults no_format team_world (Num 80) push_ctx = (t, Inr d)
            \<and> overrideApplied d = JUndefined
            \<and> ListReviews \<notin> set t \<and> ReadCodeowners \<notin> set t)"
proof -
  have n: "no_pull_number push_ctx"
    by (simp add: no_pull_number_def pull_number_def push_ctx_def)
  from C10_no_pull_number[OF n, of team_world no_format "Num 80"] n show ?thesis by simp
qed

end
